theory Spec2Isabelle
  imports Complex_Main "HOL-Library.Log_Nat"
begin

section \<open>The heated plate: data model\<close>

text \<open>
  The program (\<^verbatim>\<open>src/CUDA Seneca/a1.cpp\<close>) keeps two global arrays
  \<^verbatim>\<open>double u[M][N]\<close> and \<^verbatim>\<open>double w[M][N]\<close> and the global scalars
  \<^verbatim>\<open>diff\<close>, \<^verbatim>\<open>epsilon\<close>, \<^verbatim>\<open>mean\<close>, \<^verbatim>\<open>iterations\<close> and
  \<^verbatim>\<open>iterations_print\<close>.  The dimensions are the macros \<^verbatim>\<open>M\<close> and \<^verbatim>\<open>N\<close>
  (both 1000 in the source); every function below takes them as its first two
  arguments, so that the same code can be read at any size.

  An array is a function from a row and a column index to its value; only the
  cells with row below \<open>M\<close> and column below \<open>N\<close> belong to the array.  A
  \<^verbatim>\<open>double\<close> is a \<^typ>\<open>real\<close>.  The functions that carry the names of the source
  compute in exact arithmetic; they show which cells are read and written, in which
  order, and when the loop is left.  The functions whose names end in \<open>64\<close> (further
  down) are the same code with every operation rounded to binary64; the claim that
  depends on rounding is settled on them.  The loop counters
  \<^verbatim>\<open>i\<close> and \<^verbatim>\<open>j\<close> are globals of the source too; each loop sets its
  counter before reading it, so they are not part of the state.  The two
  \<^verbatim>\<open>int\<close> counters of the iteration are unbounded integers.  What the program
  prints and the file it writes are left out.
\<close>

type_synonym grid = "nat \<Rightarrow> nat \<Rightarrow> real"

text \<open>The assignment \<^verbatim>\<open>g[i][j] = v\<close>.\<close>

definition put :: "grid \<Rightarrow> nat \<Rightarrow> nat \<Rightarrow> real \<Rightarrow> grid" where
  "put g i j v = g(i := (g i)(j := v))"

record plate =
  w :: grid
  u :: grid
  diff :: real
  epsilon :: real
  mean :: real
  iterations :: int
  iterations_print :: int

text \<open>The dimensions the source is compiled with.\<close>

definition M_source :: nat where "M_source = 1000"
definition N_source :: nat where "N_source = 1000"

text \<open>
  Objects of static storage duration start out as zero, so this is the state in which
  \<^verbatim>\<open>main\<close> begins.
\<close>

definition initial :: plate where
  "initial = \<lparr>w = (\<lambda>i j. 0), u = (\<lambda>i j. 0), diff = 0, epsilon = 0, mean = 0,
     iterations = 0, iterations_print = 0\<rparr>"

section \<open>Boundary values\<close>

text \<open>
  A loop \<^verbatim>\<open>for (i = a; i < b; i++) body\<close> is the fold of its body over the
  counter values \<open>[a..<b]\<close>.  The bound \<^verbatim>\<open>M - 1\<close> is a subtraction on
  \<^typ>\<open>nat\<close>; it agrees with the source's \<^verbatim>\<open>int\<close> for \<open>1 \<le> M\<close>, and for
  \<open>M = 0\<close> both give a loop from 1 that does not run.  As indices, \<^verbatim>\<open>M - 1\<close>
  and \<^verbatim>\<open>N - 1\<close> are exact for every array that has a row and a column.

  The four loops of \<^verbatim>\<open>setBoundaryValue\<close>, in the order of the source:
  west column, east column, south row, north row.
\<close>

definition stamp_west :: "nat \<Rightarrow> nat \<Rightarrow> plate \<Rightarrow> plate" where
  "stamp_west M N = fold (\<lambda>i s. s\<lparr>w := put (w s) i 0 100\<rparr>) [1..<M - 1]"

definition stamp_east :: "nat \<Rightarrow> nat \<Rightarrow> plate \<Rightarrow> plate" where
  "stamp_east M N = fold (\<lambda>i s. s\<lparr>w := put (w s) i (N - 1) 100\<rparr>) [1..<M - 1]"

definition stamp_south :: "nat \<Rightarrow> nat \<Rightarrow> plate \<Rightarrow> plate" where
  "stamp_south M N = fold (\<lambda>j s. s\<lparr>w := put (w s) (M - 1) j 100\<rparr>) [0..<N]"

definition stamp_north :: "nat \<Rightarrow> nat \<Rightarrow> plate \<Rightarrow> plate" where
  "stamp_north M N = fold (\<lambda>j s. s\<lparr>w := put (w s) 0 j 0\<rparr>) [0..<N]"

definition setBoundaryValue :: "nat \<Rightarrow> nat \<Rightarrow> plate \<Rightarrow> plate" where
  "setBoundaryValue M N s =
     stamp_north M N (stamp_south M N (stamp_east M N (stamp_west M N s)))"

section \<open>The mean of the boundary\<close>

text \<open>
  \<^verbatim>\<open>setAverageBoundary\<close>: four loops add boundary cells to \<^verbatim>\<open>mean\<close>, the sum
  is divided by \<^verbatim>\<open>(double)(2 * M + 2 * N - 4)\<close> (an \<^verbatim>\<open>int\<close> expression, so
  the model computes it on \<^typ>\<open>int\<close>), and a nested loop stores the mean in the
  interior.
\<close>

definition add_west :: "nat \<Rightarrow> nat \<Rightarrow> plate \<Rightarrow> plate" where
  "add_west M N = fold (\<lambda>i s. s\<lparr>mean := mean s + w s i 0\<rparr>) [1..<M - 1]"

definition add_east :: "nat \<Rightarrow> nat \<Rightarrow> plate \<Rightarrow> plate" where
  "add_east M N = fold (\<lambda>i s. s\<lparr>mean := mean s + w s i (N - 1)\<rparr>) [1..<M - 1]"

definition add_south :: "nat \<Rightarrow> nat \<Rightarrow> plate \<Rightarrow> plate" where
  "add_south M N = fold (\<lambda>j s. s\<lparr>mean := mean s + w s (M - 1) j\<rparr>) [0..<N]"

definition add_north :: "nat \<Rightarrow> nat \<Rightarrow> plate \<Rightarrow> plate" where
  "add_north M N = fold (\<lambda>j s. s\<lparr>mean := mean s + w s 0 j\<rparr>) [0..<N]"

definition fill_interior :: "nat \<Rightarrow> nat \<Rightarrow> plate \<Rightarrow> plate" where
  "fill_interior M N =
     fold (\<lambda>i. fold (\<lambda>j s. s\<lparr>w := put (w s) i j (mean s)\<rparr>) [1..<N - 1]) [1..<M - 1]"

definition setAverageBoundary :: "nat \<Rightarrow> nat \<Rightarrow> plate \<Rightarrow> plate" where
  "setAverageBoundary M N s =
     (let s0 = s\<lparr>mean := 0\<rparr>;
          s1 = add_north M N (add_south M N (add_east M N (add_west M N s0)));
          s2 = s1\<lparr>mean := mean s1 / real_of_int (2 * int M + 2 * int N - 4)\<rparr>
      in fill_interior M N s2)"

section \<open>The relaxation loop\<close>

text \<open>The first nested loop of the body of the \<^verbatim>\<open>while\<close>: save \<^verbatim>\<open>w\<close> in \<^verbatim>\<open>u\<close>.\<close>

definition save_old :: "nat \<Rightarrow> nat \<Rightarrow> plate \<Rightarrow> plate" where
  "save_old M N =
     fold (\<lambda>i. fold (\<lambda>j s. s\<lparr>u := put (u s) i j (w s i j)\<rparr>) [0..<N]) [0..<M]"

text \<open>
  The body of the second nested loop: the assignment to \<^verbatim>\<open>w[i][j]\<close>, then the
  test that raises \<^verbatim>\<open>diff\<close>.  The test reads \<^verbatim>\<open>w[i][j]\<close> back after the
  assignment, as the source does.
\<close>

definition update_cell :: "nat \<Rightarrow> nat \<Rightarrow> plate \<Rightarrow> plate" where
  "update_cell i j s =
     (let s1 = s\<lparr>w := put (w s) i j
                 ((u s (i - 1) j + u s (i + 1) j + u s i (j - 1) + u s i (j + 1)) / 4)\<rparr>
      in if diff s1 < \<bar>w s1 i j - u s1 i j\<bar>
         then s1\<lparr>diff := \<bar>w s1 i j - u s1 i j\<bar>\<rparr>
         else s1)"

definition relax :: "nat \<Rightarrow> nat \<Rightarrow> plate \<Rightarrow> plate" where
  "relax M N = fold (\<lambda>i. fold (\<lambda>j. update_cell i j) [1..<N - 1]) [1..<M - 1]"

text \<open>
  One pass through the body of the \<^verbatim>\<open>while\<close>.  The progress line is not
  modelled, the doubling of \<^verbatim>\<open>iterations_print\<close> that goes with it is.
\<close>

definition sweep :: "nat \<Rightarrow> nat \<Rightarrow> plate \<Rightarrow> plate" where
  "sweep M N s =
     (let s1 = save_old M N s;
          s2 = s1\<lparr>diff := 0\<rparr>;
          s3 = relax M N s2;
          s4 = s3\<lparr>iterations := iterations s3 + 1\<rparr>
      in if iterations s4 = iterations_print s4
         then s4\<lparr>iterations_print := 2 * iterations_print s4\<rparr>
         else s4)"

text \<open>
  The \<^verbatim>\<open>while (epsilon <= diff)\<close> of \<^verbatim>\<open>getHeat\<close>.  The source puts no bound on
  the number of passes, so the loop is a partial function: \<open>None\<close> is a run that never
  leaves the loop.
\<close>

partial_function (option) heat_loop :: "nat \<Rightarrow> nat \<Rightarrow> plate \<Rightarrow> plate option" where
  "heat_loop M N s =
     (if epsilon s \<le> diff s then heat_loop M N (sweep M N s) else Some s)"

definition getHeat :: "nat \<Rightarrow> nat \<Rightarrow> plate \<Rightarrow> plate option" where
  "getHeat M N s = heat_loop M N (s\<lparr>iterations := 0, iterations_print := 1\<rparr>)"

text \<open>
  The same \<^verbatim>\<open>while\<close> cut off after at most \<open>k\<close> tests of its condition: the state
  in which the loop is left, or the state at the next test when the \<open>k\<close> tests are used
  up.  It shows what the loop has done so far also in a run that never leaves it.
\<close>

fun heat_passes :: "nat \<Rightarrow> nat \<Rightarrow> nat \<Rightarrow> plate \<Rightarrow> plate" where
  "heat_passes M N 0 s = s"
| "heat_passes M N (Suc k) s =
     (if epsilon s \<le> diff s then heat_passes M N k (sweep M N s) else s)"

section \<open>The main program\<close>

text \<open>
  \<^verbatim>\<open>main\<close> reads the tolerance and the name of the output file, each from the
  command line or from standard input.  The two arguments of the model are what was
  read: \<open>None\<close> is a command-line argument that \<^verbatim>\<open>sscanf\<close> could not convert,
  the one case in which \<^verbatim>\<open>main\<close> returns 1.  (The source converts with
  \<^verbatim>\<open>%f\<close> into a \<^verbatim>\<open>double\<close>; the model takes the value read as given.)
  A run that ends normally returns the final state, whose \<^verbatim>\<open>w\<close> is what
  \<^verbatim>\<open>writeToFile\<close> then prints.
\<close>

datatype error = EpsilonReadError | FilenameReadError

definition entry_state :: "real \<Rightarrow> plate" where
  "entry_state eps = (let s = initial\<lparr>epsilon := eps\<rparr> in s\<lparr>diff := epsilon s\<rparr>)"

definition main ::
  "nat \<Rightarrow> nat \<Rightarrow> real option \<Rightarrow> string option \<Rightarrow> (error + plate) option" where
  "main M N eps_in file_in =
     (case eps_in of
        None \<Rightarrow> Some (Inl EpsilonReadError)
      | Some eps \<Rightarrow>
          (let s = entry_state eps in
           case file_in of
             None \<Rightarrow> Some (Inl FilenameReadError)
           | Some f \<Rightarrow>
               map_option Inr
                 (getHeat M N (setAverageBoundary M N (setBoundaryValue M N s)))))"

text \<open>
  The state in which the \<^verbatim>\<open>while\<close> is first reached when \<^verbatim>\<open>main\<close> has read
  the tolerance \<open>eps\<close>: boundary and interior are set, and \<^verbatim>\<open>getHeat\<close> has reset
  its two counters.
\<close>

definition prepared :: "nat \<Rightarrow> nat \<Rightarrow> real \<Rightarrow> plate" where
  "prepared M N eps =
     (setAverageBoundary M N (setBoundaryValue M N (entry_state eps)))
       \<lparr>iterations := 0, iterations_print := 1\<rparr>"

section \<open>Vocabulary of the specification\<close>

text \<open>
  An interior cell has \<open>1 \<le> i \<le> M - 2\<close> and \<open>1 \<le> j \<le> N - 2\<close>; the inequality
  \<open>i \<le> M - 2\<close> is written \<open>i + 2 \<le> M\<close> to keep it exact on \<^typ>\<open>nat\<close>.
\<close>

definition interior :: "nat \<Rightarrow> nat \<Rightarrow> nat \<Rightarrow> nat \<Rightarrow> bool" where
  "interior M N i j \<longleftrightarrow> 1 \<le> i \<and> i + 2 \<le> M \<and> 1 \<le> j \<and> j + 2 \<le> N"

text \<open>
  The boundary cells as the specification lists them: the two full edge rows, and the
  two edge columns restricted to the rows \<open>1..M - 2\<close>.
\<close>

definition boundary_cells :: "nat \<Rightarrow> nat \<Rightarrow> (nat \<times> nat) set" where
  "boundary_cells M N = ({0, M - 1} \<times> {0..<N}) \<union> ({1..<M - 1} \<times> {0, N - 1})"

text \<open>The average of the four neighbours of a cell, and how far the cell is from it.\<close>

definition neighbour_mean :: "grid \<Rightarrow> nat \<Rightarrow> nat \<Rightarrow> real" where
  "neighbour_mean g i j = (g (i - 1) j + g (i + 1) j + g i (j - 1) + g i (j + 1)) / 4"

definition change :: "grid \<Rightarrow> nat \<Rightarrow> nat \<Rightarrow> real" where
  "change g i j = \<bar>neighbour_mean g i j - g i j\<bar>"

text \<open>What the four summation loops of \<^verbatim>\<open>setAverageBoundary\<close> add up.\<close>

definition boundary_sum :: "nat \<Rightarrow> nat \<Rightarrow> grid \<Rightarrow> real" where
  "boundary_sum M N g =
     (\<Sum>i = 1..<M - 1. g i 0) + (\<Sum>i = 1..<M - 1. g i (N - 1))
       + (\<Sum>j = 0..<N. g (M - 1) j) + (\<Sum>j = 0..<N. g 0 j)"

text \<open>
  The value that \<^verbatim>\<open>setAverageBoundary\<close> computes from the boundary that
  \<^verbatim>\<open>setBoundaryValue\<close> has set (see \<open>mean_prepared\<close> below).
\<close>

definition start_mean :: "nat \<Rightarrow> nat \<Rightarrow> real" where
  "start_mean M N = 100 * (2 * (real M - 2) + real N) / (2 * real M + 2 * real N - 4)"

section \<open>Double arithmetic\<close>

text \<open>
  The functions above compute in exact arithmetic.  The source computes in
  \<^verbatim>\<open>double\<close>: every addition, subtraction and division gives the binary64 number
  nearest to the exact result, the even one of two that are equally near.  A finite
  binary64 number is an integer multiple of its quantum \<open>2 ^ (e - 52)\<close>, where \<open>e\<close> is
  the binary exponent of the number, and not less than \<open>-1022\<close>.

  \<open>exponent x\<close> is the integer \<open>e\<close> with \<open>2 ^ e \<le> \<bar>x\<bar> < 2 ^ (e + 1)\<close> (lemma
  \<open>exponent_brackets\<close> below), computed from the number of bits of the integer part, or
  of the integer part of the reciprocal.  The model has no infinities and no NaN: from
  the boundary values of the source no result exceeds 400.
\<close>


definition exponent :: "real \<Rightarrow> int" where
  "exponent x =
     (if 1 \<le> \<bar>x\<bar> then bitlen \<lfloor>\<bar>x\<bar>\<rfloor> - 1 else - bitlen (\<lceil>1 / \<bar>x\<bar>\<rceil> - 1))"

text \<open>The nearest integer, the even one at a tie.\<close>

definition round_even :: "real \<Rightarrow> int" where
  "round_even y =
     (let f = \<lfloor>y\<rfloor> in
      if y - of_int f < 1 / 2 then f
      else if 1 / 2 < y - of_int f then f + 1
      else if even f then f else f + 1)"

definition quantum :: "real \<Rightarrow> real" where
  "quantum x = 2 powi (max (exponent x) (- 1022) - 52)"

definition round64 :: "real \<Rightarrow> real" where
  "round64 x = (if x = 0 then 0 else of_int (round_even (x / quantum x)) * quantum x)"

text \<open>
  The operations of the source on \<^verbatim>\<open>double\<close>; \<^verbatim>\<open>fabs\<close> and the comparisons are
  exact.
\<close>

definition dadd :: "real \<Rightarrow> real \<Rightarrow> real" where
  "dadd x y = round64 (x + y)"

definition dsub :: "real \<Rightarrow> real \<Rightarrow> real" where
  "dsub x y = round64 (x - y)"

definition ddiv :: "real \<Rightarrow> real \<Rightarrow> real" where
  "ddiv x y = round64 (x / y)"

section \<open>The program in double arithmetic\<close>

text \<open>
  The functions of the source that compute, once more, with the operations on
  \<^verbatim>\<open>double\<close> in the order in which the source writes them.  \<^verbatim>\<open>setBoundaryValue\<close>, the
  copy of \<^verbatim>\<open>w\<close> into \<^verbatim>\<open>u\<close> and the filling of the interior only store values and
  are used as they are.  The conversion \<^verbatim>\<open>(double)(2 * M + 2 * N - 4)\<close> is exact for
  every value of the \<^verbatim>\<open>int\<close> expression.
\<close>


definition add_west64 :: "nat \<Rightarrow> nat \<Rightarrow> plate \<Rightarrow> plate" where
  "add_west64 M N = fold (\<lambda>i s. s\<lparr>mean := dadd (mean s) (w s i 0)\<rparr>) [1..<M - 1]"

definition add_east64 :: "nat \<Rightarrow> nat \<Rightarrow> plate \<Rightarrow> plate" where
  "add_east64 M N = fold (\<lambda>i s. s\<lparr>mean := dadd (mean s) (w s i (N - 1))\<rparr>) [1..<M - 1]"

definition add_south64 :: "nat \<Rightarrow> nat \<Rightarrow> plate \<Rightarrow> plate" where
  "add_south64 M N = fold (\<lambda>j s. s\<lparr>mean := dadd (mean s) (w s (M - 1) j)\<rparr>) [0..<N]"

definition add_north64 :: "nat \<Rightarrow> nat \<Rightarrow> plate \<Rightarrow> plate" where
  "add_north64 M N = fold (\<lambda>j s. s\<lparr>mean := dadd (mean s) (w s 0 j)\<rparr>) [0..<N]"

definition setAverageBoundary64 :: "nat \<Rightarrow> nat \<Rightarrow> plate \<Rightarrow> plate" where
  "setAverageBoundary64 M N s =
     (let s0 = s\<lparr>mean := 0\<rparr>;
          s1 = add_north64 M N (add_south64 M N (add_east64 M N (add_west64 M N s0)));
          s2 = s1\<lparr>mean := ddiv (mean s1) (real_of_int (2 * int M + 2 * int N - 4))\<rparr>
      in fill_interior M N s2)"

definition update_cell64 :: "nat \<Rightarrow> nat \<Rightarrow> plate \<Rightarrow> plate" where
  "update_cell64 i j s =
     (let s1 = s\<lparr>w := put (w s) i j
                 (ddiv (dadd (dadd (dadd (u s (i - 1) j) (u s (i + 1) j)) (u s i (j - 1)))
                    (u s i (j + 1))) 4)\<rparr>
      in if diff s1 < \<bar>dsub (w s1 i j) (u s1 i j)\<bar>
         then s1\<lparr>diff := \<bar>dsub (w s1 i j) (u s1 i j)\<bar>\<rparr>
         else s1)"

definition relax64 :: "nat \<Rightarrow> nat \<Rightarrow> plate \<Rightarrow> plate" where
  "relax64 M N = fold (\<lambda>i. fold (\<lambda>j. update_cell64 i j) [1..<N - 1]) [1..<M - 1]"

definition sweep64 :: "nat \<Rightarrow> nat \<Rightarrow> plate \<Rightarrow> plate" where
  "sweep64 M N s =
     (let s1 = save_old M N s;
          s2 = s1\<lparr>diff := 0\<rparr>;
          s3 = relax64 M N s2;
          s4 = s3\<lparr>iterations := iterations s3 + 1\<rparr>
      in if iterations s4 = iterations_print s4
         then s4\<lparr>iterations_print := 2 * iterations_print s4\<rparr>
         else s4)"

partial_function (option) heat_loop64 :: "nat \<Rightarrow> nat \<Rightarrow> plate \<Rightarrow> plate option" where
  "heat_loop64 M N s =
     (if epsilon s \<le> diff s then heat_loop64 M N (sweep64 M N s) else Some s)"

definition getHeat64 :: "nat \<Rightarrow> nat \<Rightarrow> plate \<Rightarrow> plate option" where
  "getHeat64 M N s = heat_loop64 M N (s\<lparr>iterations := 0, iterations_print := 1\<rparr>)"

definition main64 ::
  "nat \<Rightarrow> nat \<Rightarrow> real option \<Rightarrow> string option \<Rightarrow> (error + plate) option" where
  "main64 M N eps_in file_in =
     (case eps_in of
        None \<Rightarrow> Some (Inl EpsilonReadError)
      | Some eps \<Rightarrow>
          (let s = entry_state eps in
           case file_in of
             None \<Rightarrow> Some (Inl FilenameReadError)
           | Some f \<Rightarrow>
               map_option Inr
                 (getHeat64 M N (setAverageBoundary64 M N (setBoundaryValue M N s)))))"

definition prepared64 :: "nat \<Rightarrow> nat \<Rightarrow> real \<Rightarrow> plate" where
  "prepared64 M N eps =
     (setAverageBoundary64 M N (setBoundaryValue M N (entry_state eps)))
       \<lparr>iterations := 0, iterations_print := 1\<rparr>"

text \<open>
  The average of the four neighbours as the source computes it, the change of a cell as
  the source measures it, and the mean with which the interior starts.
\<close>

definition neighbour_mean64 :: "grid \<Rightarrow> nat \<Rightarrow> nat \<Rightarrow> real" where
  "neighbour_mean64 g i j =
     ddiv (dadd (dadd (dadd (g (i - 1) j) (g (i + 1) j)) (g i (j - 1))) (g i (j + 1))) 4"

definition change64 :: "grid \<Rightarrow> nat \<Rightarrow> nat \<Rightarrow> real" where
  "change64 g i j = \<bar>dsub (neighbour_mean64 g i j) (g i j)\<bar>"

definition start_mean64 :: "nat \<Rightarrow> nat \<Rightarrow> real" where
  "start_mean64 M N = ddiv (100 * (2 * (real M - 2) + real N)) (2 * real M + 2 * real N - 4)"

text \<open>
  The 3 by 4 plate has two interior cells, \<open>(1, 1)\<close> and \<open>(1, 2)\<close>.  The predicate holds of
  a state of the run with tolerance \<open>2 ^ -50\<close> in which they hold \<open>a\<close> and \<open>b\<close>, the
  boundary is as \<^verbatim>\<open>setBoundaryValue\<close> has left it, and \<^verbatim>\<open>diff\<close> is \<open>d\<close>.
\<close>

definition on34 :: "plate \<Rightarrow> real \<Rightarrow> real \<Rightarrow> real \<Rightarrow> bool" where
  "on34 s a b d \<longleftrightarrow>
     w s 0 1 = 0 \<and> w s 0 2 = 0 \<and> w s 2 1 = 100 \<and> w s 2 2 = 100 \<and> w s 1 0 = 100 \<and> w s 1 3 = 100
       \<and> w s 1 1 = a \<and> w s 1 2 = b \<and> diff s = d \<and> epsilon s = 1 / 2 ^ 50"

section \<open>The loops in closed form\<close>

subsection \<open>Boundary values\<close>

lemma put_apply: "put g i j v i' j' = (if i' = i \<and> j' = j then v else g i' j')"
  by (simp add: put_def)

lemma fold_put_w:
  "fold (\<lambda>k s. s\<lparr>w := put (w s) (r k) (c k) v\<rparr>) xs (s::plate)
     = s\<lparr>w := (\<lambda>i j. if \<exists>k\<in>set xs. r k = i \<and> c k = j then v else w s i j)\<rparr>"
proof (induction xs arbitrary: s)
  case Nil
  show ?case by simp
next
  case (Cons x xs)
  show ?case
    by (simp add: Cons.IH) (rule arg_cong [where f = "\<lambda>g. s\<lparr>w := g\<rparr>"], auto simp: fun_eq_iff put_apply)
qed

lemma stamp_west_eq:
  "stamp_west M N s = s\<lparr>w := (\<lambda>i j. if 1 \<le> i \<and> i < M - 1 \<and> j = 0 then 100 else w s i j)\<rparr>"
  unfolding stamp_west_def fold_put_w [where r = "\<lambda>k. k" and c = "\<lambda>k. 0"]
  by (rule arg_cong [where f = "\<lambda>g. s\<lparr>w := g\<rparr>"]) (auto simp: fun_eq_iff)

lemma stamp_east_eq:
  "stamp_east M N s = s\<lparr>w := (\<lambda>i j. if 1 \<le> i \<and> i < M - 1 \<and> j = N - 1 then 100 else w s i j)\<rparr>"
  unfolding stamp_east_def fold_put_w [where r = "\<lambda>k. k" and c = "\<lambda>k. N - 1"]
  by (rule arg_cong [where f = "\<lambda>g. s\<lparr>w := g\<rparr>"]) (auto simp: fun_eq_iff)

lemma stamp_south_eq:
  "stamp_south M N s = s\<lparr>w := (\<lambda>i j. if i = M - 1 \<and> j < N then 100 else w s i j)\<rparr>"
  unfolding stamp_south_def fold_put_w [where r = "\<lambda>k. M - 1" and c = "\<lambda>k. k"]
  by (rule arg_cong [where f = "\<lambda>g. s\<lparr>w := g\<rparr>"]) (auto simp: fun_eq_iff)

lemma stamp_north_eq:
  "stamp_north M N s = s\<lparr>w := (\<lambda>i j. if i = 0 \<and> j < N then 0 else w s i j)\<rparr>"
  unfolding stamp_north_def fold_put_w [where r = "\<lambda>k. 0" and c = "\<lambda>k. k"]
  by (rule arg_cong [where f = "\<lambda>g. s\<lparr>w := g\<rparr>"]) (auto simp: fun_eq_iff)

lemma w_setBoundaryValue:
  "w (setBoundaryValue M N s) i j =
     (if i = 0 \<and> j < N then 0
      else if i = M - 1 \<and> j < N then 100
      else if 1 \<le> i \<and> i < M - 1 \<and> j = N - 1 then 100
      else if 1 \<le> i \<and> i < M - 1 \<and> j = 0 then 100
      else w s i j)"
  by (simp add: setBoundaryValue_def stamp_west_eq stamp_east_eq stamp_south_eq stamp_north_eq)

subsection \<open>The mean and the interior\<close>

lemma fold_add_mean:
  "fold (\<lambda>k s. s\<lparr>mean := mean s + w s (r k) (c k)\<rparr>) xs (s::plate)
     = s\<lparr>mean := mean s + (\<Sum>k\<leftarrow>xs. w s (r k) (c k))\<rparr>"
  by (induction xs arbitrary: s) (simp_all add: add.assoc)

lemma add_west_eq: "add_west M N s = s\<lparr>mean := mean s + (\<Sum>i = 1..<M - 1. w s i 0)\<rparr>"
  unfolding add_west_def fold_add_mean [where r = "\<lambda>k. k" and c = "\<lambda>k. 0"]
  by (simp only: interv_sum_list_conv_sum_set_nat set_upt)

lemma add_east_eq: "add_east M N s = s\<lparr>mean := mean s + (\<Sum>i = 1..<M - 1. w s i (N - 1))\<rparr>"
  unfolding add_east_def fold_add_mean [where r = "\<lambda>k. k" and c = "\<lambda>k. N - 1"]
  by (simp only: interv_sum_list_conv_sum_set_nat set_upt)

lemma add_south_eq: "add_south M N s = s\<lparr>mean := mean s + (\<Sum>j = 0..<N. w s (M - 1) j)\<rparr>"
  unfolding add_south_def fold_add_mean [where r = "\<lambda>k. M - 1" and c = "\<lambda>k. k"]
  by (simp only: interv_sum_list_conv_sum_set_nat set_upt)

lemma add_north_eq: "add_north M N s = s\<lparr>mean := mean s + (\<Sum>j = 0..<N. w s 0 j)\<rparr>"
  unfolding add_north_def fold_add_mean [where r = "\<lambda>k. 0" and c = "\<lambda>k. k"]
  by (simp only: interv_sum_list_conv_sum_set_nat set_upt)

lemma fold_put_mean_row:
  "fold (\<lambda>j s. s\<lparr>w := put (w s) i j (mean s)\<rparr>) ys (s::plate)
     = s\<lparr>w := (\<lambda>i' j'. if i' = i \<and> j' \<in> set ys then mean s else w s i' j')\<rparr>"
proof (induction ys arbitrary: s)
  case Nil
  show ?case by simp
next
  case (Cons y ys)
  show ?case
    by (simp add: Cons.IH)
      (rule arg_cong [where f = "\<lambda>g. s\<lparr>w := g\<rparr>"], auto simp: fun_eq_iff put_apply)
qed

lemma fold_put_mean_rows:
  "fold (\<lambda>i. fold (\<lambda>j s. s\<lparr>w := put (w s) i j (mean s)\<rparr>) ys) xs (s::plate)
     = s\<lparr>w := (\<lambda>i' j'. if i' \<in> set xs \<and> j' \<in> set ys then mean s else w s i' j')\<rparr>"
proof (induction xs arbitrary: s)
  case Nil
  show ?case by simp
next
  case (Cons x xs)
  show ?case
    by (simp only: fold_simps o_apply Cons.IH)
      (simp only: fold_put_mean_row, simp, rule arg_cong [where f = "\<lambda>g. s\<lparr>w := g\<rparr>"],
        auto simp: fun_eq_iff)
qed

lemma fill_interior_eq:
  "fill_interior M N s =
     s\<lparr>w := (\<lambda>i j. if 1 \<le> i \<and> i < M - 1 \<and> 1 \<le> j \<and> j < N - 1 then mean s else w s i j)\<rparr>"
  unfolding fill_interior_def fold_put_mean_rows
  by (rule arg_cong [where f = "\<lambda>g. s\<lparr>w := g\<rparr>"]) (auto simp: fun_eq_iff)

lemma setAverageBoundary_eq:
  "setAverageBoundary M N s =
     s\<lparr>mean := boundary_sum M N (w s) / real_of_int (2 * int M + 2 * int N - 4),
       w := (\<lambda>i j. if 1 \<le> i \<and> i < M - 1 \<and> 1 \<le> j \<and> j < N - 1
                    then boundary_sum M N (w s) / real_of_int (2 * int M + 2 * int N - 4)
                    else w s i j)\<rparr>"
  by (simp add: setAverageBoundary_def Let_def add_west_eq add_east_eq add_south_eq add_north_eq
      fill_interior_eq boundary_sum_def cong: if_cong)

subsection \<open>One sweep\<close>

lemma fold_save_row:
  "fold (\<lambda>j s. s\<lparr>u := put (u s) i j (w s i j)\<rparr>) ys (s::plate)
     = s\<lparr>u := (\<lambda>i' j'. if i' = i \<and> j' \<in> set ys then w s i' j' else u s i' j')\<rparr>"
proof (induction ys arbitrary: s)
  case Nil
  show ?case by simp
next
  case (Cons y ys)
  show ?case
    by (simp add: Cons.IH)
      (rule arg_cong [where f = "\<lambda>g. s\<lparr>u := g\<rparr>"], auto simp: fun_eq_iff put_apply)
qed

lemma fold_save_rows:
  "fold (\<lambda>i. fold (\<lambda>j s. s\<lparr>u := put (u s) i j (w s i j)\<rparr>) ys) xs (s::plate)
     = s\<lparr>u := (\<lambda>i' j'. if i' \<in> set xs \<and> j' \<in> set ys then w s i' j' else u s i' j')\<rparr>"
proof (induction xs arbitrary: s)
  case Nil
  show ?case by simp
next
  case (Cons x xs)
  show ?case
    by (simp only: fold_simps o_apply Cons.IH)
      (simp only: fold_save_row, simp, rule arg_cong [where f = "\<lambda>g. s\<lparr>u := g\<rparr>"],
        auto simp: fun_eq_iff)
qed

lemma save_old_eq:
  "save_old M N s = s\<lparr>u := (\<lambda>i j. if i < M \<and> j < N then w s i j else u s i j)\<rparr>"
  unfolding save_old_def fold_save_rows
  by (rule arg_cong [where f = "\<lambda>g. s\<lparr>u := g\<rparr>"]) (auto simp: fun_eq_iff)

lemma update_cell_eq:
  "update_cell i j s =
     s\<lparr>w := put (w s) i j (neighbour_mean (u s) i j),
       diff := max (diff s) (change (u s) i j)\<rparr>"
  by (simp add: update_cell_def Let_def put_apply max_def neighbour_mean_def change_def)

lemma fold_max:
  "fold (\<lambda>x d. max d (f x)) xs (d::real) = Max (insert d (f ` set xs))"
proof -
  have "(\<lambda>x d. max d (f x)) = max \<circ> f"
    by (auto simp: fun_eq_iff)
  then have "fold (\<lambda>x d. max d (f x)) xs d = fold max (map f xs) d"
    by (simp add: fold_map)
  also have "\<dots> = Max (set (d # map f xs))"
    by (rule Max.set_eq_fold [symmetric])
  finally show ?thesis by simp
qed

lemma fold_update_row:
  "fold (\<lambda>j. update_cell i j) ys s =
     s\<lparr>w := (\<lambda>i' j'. if i' = i \<and> j' \<in> set ys then neighbour_mean (u s) i' j' else w s i' j'),
       diff := fold (\<lambda>j d. max d (change (u s) i j)) ys (diff s)\<rparr>"
proof (induction ys arbitrary: s)
  case Nil
  show ?case by simp
next
  case (Cons y ys)
  show ?case
    by (simp only: fold_simps o_apply Cons.IH)
      (simp add: update_cell_eq cong: if_cong,
        rule arg_cong [where f = "\<lambda>g. s\<lparr>w := g, diff := d\<rparr>" for d],
        auto simp: fun_eq_iff put_apply)
qed

lemma fold_update_rows:
  "fold (\<lambda>i. fold (\<lambda>j. update_cell i j) ys) xs s =
     s\<lparr>w := (\<lambda>i' j'. if i' \<in> set xs \<and> j' \<in> set ys
                     then neighbour_mean (u s) i' j' else w s i' j'),
       diff := Max (insert (diff s) ((\<lambda>(i, j). change (u s) i j) ` (set xs \<times> set ys)))\<rparr>"
proof (induction xs arbitrary: s)
  case Nil
  show ?case by simp
next
  case (Cons x xs)
  let ?d = "Max (insert (diff s) (change (u s) x ` set ys))"
  let ?A = "(\<lambda>(i, j). change (u s) i j) ` (set xs \<times> set ys)"
  have split: "(\<lambda>(i, j). change (u s) i j) ` (set (x # xs) \<times> set ys)
      = change (u s) x ` set ys \<union> ?A"
    by (auto simp: image_iff)
  have "Max (insert ?d ?A) = Max (insert (diff s) (change (u s) x ` set ys) \<union> ?A)"
  proof (cases "?A = {}")
    case True
    show ?thesis by (simp only: True Un_empty_right Max_singleton)
  next
    case False
    then show ?thesis
      by (subst Max_Un) (simp_all add: max.commute)
  qed
  then have m: "Max (insert ?d ?A)
      = Max (insert (diff s) ((\<lambda>(i, j). change (u s) i j) ` (set (x # xs) \<times> set ys)))"
    by (simp only: split Un_insert_left)
  show ?case
    apply (simp only: fold_simps o_apply Cons.IH)
    apply (simp only: fold_update_row fold_max)
    apply (simp add: m del: Max_insert cong: if_cong)
    apply (rule arg_cong [where f = "\<lambda>g. s\<lparr>w := g, diff := d\<rparr>" for d])
    apply (auto simp: fun_eq_iff)
    done
qed

lemma relax_eq:
  "relax M N s =
     s\<lparr>w := (\<lambda>i j. if 1 \<le> i \<and> i < M - 1 \<and> 1 \<le> j \<and> j < N - 1
                   then neighbour_mean (u s) i j else w s i j),
       diff := Max (insert (diff s)
                 ((\<lambda>(i, j). change (u s) i j) ` ({1..<M - 1} \<times> {1..<N - 1})))\<rparr>"
  unfolding relax_def fold_update_rows
  by (simp only: set_upt) (rule arg_cong [where f = "\<lambda>g. s\<lparr>w := g, diff := d\<rparr>" for d], auto simp: fun_eq_iff)

lemma interior_iff: "interior M N i j \<longleftrightarrow> 1 \<le> i \<and> i < M - 1 \<and> 1 \<le> j \<and> j < N - 1"
  by (auto simp: interior_def)

lemma epsilon_sweep: "epsilon (sweep M N s) = epsilon s"
  by (simp add: sweep_def Let_def save_old_eq relax_eq)

lemma iterations_sweep: "iterations (sweep M N s) = iterations s + 1"
  by (simp add: sweep_def Let_def save_old_eq relax_eq)

lemma u_sweep: "u (sweep M N s) i j = (if i < M \<and> j < N then w s i j else u s i j)"
  by (simp add: sweep_def Let_def save_old_eq relax_eq)

lemma w_sweep_u:
  "w (sweep M N s) i j =
     (if interior M N i j then neighbour_mean (u (sweep M N s)) i j else w s i j)"
  by (simp add: sweep_def Let_def save_old_eq relax_eq interior_iff)

lemma diff_sweep_u:
  "diff (sweep M N s) =
     Max (insert 0 ((\<lambda>(i, j). change (u (sweep M N s)) i j) ` ({1..<M - 1} \<times> {1..<N - 1})))"
  by (simp add: sweep_def Let_def save_old_eq relax_eq del: Max_insert)

lemma neighbour_mean_snapshot:
  assumes "interior M N i j"
  shows "neighbour_mean (u (sweep M N s)) i j = neighbour_mean (w s) i j"
proof -
  from assms have "i - 1 < M" "i + 1 < M" "i < M" "j - 1 < N" "j + 1 < N" "j < N"
    by (auto simp: interior_def)
  then show ?thesis
    by (simp add: neighbour_mean_def u_sweep)
qed

lemma w_sweep:
  "w (sweep M N s) i j = (if interior M N i j then neighbour_mean (w s) i j else w s i j)"
  by (simp add: w_sweep_u neighbour_mean_snapshot)

lemma change_snapshot:
  assumes "interior M N i j"
  shows "change (u (sweep M N s)) i j = \<bar>w (sweep M N s) i j - w s i j\<bar>"
proof -
  from assms have "i < M" "j < N"
    by (auto simp: interior_def)
  with assms show ?thesis
    by (simp add: change_def w_sweep_u u_sweep)
qed

lemma diff_sweep:
  "diff (sweep M N s) =
     Max (insert 0 ((\<lambda>(i, j). \<bar>w (sweep M N s) i j - w s i j\<bar>) ` ({1..<M - 1} \<times> {1..<N - 1})))"
proof -
  have "(\<lambda>(i, j). change (u (sweep M N s)) i j) ` ({1..<M - 1} \<times> {1..<N - 1})
      = (\<lambda>(i, j). \<bar>w (sweep M N s) i j - w s i j\<bar>) ` ({1..<M - 1} \<times> {1..<N - 1})"
    by (rule image_cong) (auto simp: change_snapshot interior_iff)
  then show ?thesis
    by (simp only: diff_sweep_u)
qed

subsection \<open>The state in which the loop is reached\<close>

lemma w_west_east:
  "w (stamp_east M N (stamp_west M N s)) i j =
     (if 1 \<le> i \<and> i < M - 1 \<and> (j = 0 \<or> j = N - 1) then 100 else w s i j)"
  by (auto simp: stamp_west_eq stamp_east_eq)

lemma w_entry: "w (entry_state eps) = (\<lambda>i j. 0)"
  by (simp add: entry_state_def initial_def Let_def)

lemma boundary_sum_stamped:
  assumes "2 \<le> M" and "1 \<le> N"
  shows "boundary_sum M N (w (setBoundaryValue M N s)) = 100 * (2 * (real M - 2) + real N)"
proof -
  have a: "(\<Sum>i = 1..<M - 1. w (setBoundaryValue M N s) i 0) = (\<Sum>i = 1..<M - 1. 100)"
    using assms by (intro sum.cong) (auto simp: w_setBoundaryValue)
  have b: "(\<Sum>i = 1..<M - 1. w (setBoundaryValue M N s) i (N - 1)) = (\<Sum>i = 1..<M - 1. 100)"
    using assms by (intro sum.cong) (auto simp: w_setBoundaryValue)
  have c: "(\<Sum>j = 0..<N. w (setBoundaryValue M N s) (M - 1) j) = (\<Sum>j = 0..<N. 100)"
    using assms by (intro sum.cong) (auto simp: w_setBoundaryValue)
  have d: "(\<Sum>j = 0..<N. w (setBoundaryValue M N s) 0 j) = (\<Sum>j = 0..<N. 0)"
    using assms by (intro sum.cong) (auto simp: w_setBoundaryValue)
  have e: "real (M - 1 - 1) = real M - 2"
    using assms by (simp add: of_nat_diff)
  show ?thesis
    unfolding boundary_sum_def a b c d using e by (simp add: algebra_simps)
qed

lemma prepared_fields:
  "epsilon (prepared M N eps) = eps" "diff (prepared M N eps) = eps"
  "iterations (prepared M N eps) = 0" "iterations_print (prepared M N eps) = 1"
  by (simp_all add: prepared_def setAverageBoundary_eq setBoundaryValue_def
      stamp_west_eq stamp_east_eq stamp_south_eq stamp_north_eq entry_state_def Let_def initial_def)

lemma mean_prepared:
  assumes "2 \<le> M" and "1 \<le> N"
  shows "mean (prepared M N eps) = start_mean M N"
  using assms by (simp add: prepared_def setAverageBoundary_eq boundary_sum_stamped start_mean_def)

lemma w_prepared:
  assumes "2 \<le> M" and "1 \<le> N"
  shows "w (prepared M N eps) i j =
     (if interior M N i j then start_mean M N
      else if i = 0 \<and> j < N then 0
      else if i < M \<and> j < N then 100
      else 0)"
  using assms
  by (auto simp add: prepared_def setAverageBoundary_eq boundary_sum_stamped start_mean_def
      w_setBoundaryValue w_entry interior_iff)

lemma start_mean_3: "start_mean 3 3 = 125 / 2"
  by (simp add: start_mean_def)

lemma interior_3: "interior 3 3 i j \<longleftrightarrow> i = 1 \<and> j = 1"
  by (auto simp: interior_def)

lemma w_prepared_3:
  "w (prepared 3 3 eps) i j =
     (if i = 1 \<and> j = 1 then 125 / 2 else if i = 0 \<and> j < 3 then 0 else if i < 3 \<and> j < 3 then 100 else 0)"
  by (simp add: w_prepared interior_3 start_mean_3)

lemma cells_3: "{1..<3 - 1} \<times> {1..<3 - 1} = {(1::nat, 1::nat)}"
  by auto

subsection \<open>The boundary cells as a set\<close>

lemma boundary_cells_disjoint:
  "({0, M - 1} \<times> {0..<N}) \<inter> ({1..<M - 1} \<times> {0, N - 1}) = ({}::(nat \<times> nat) set)"
  by auto

lemma sum_boundary_cells:
  assumes "2 \<le> M" and "2 \<le> N"
  shows "(\<Sum>(i, j)\<in>boundary_cells M N. g i j) = boundary_sum M N (g::grid)"
proof -
  from assms have ne: "0 \<noteq> M - 1" "0 \<noteq> N - 1"
    by auto
  have "(\<Sum>(i, j)\<in>boundary_cells M N. g i j)
      = (\<Sum>(i, j)\<in>{0, M - 1} \<times> {0..<N}. g i j) + (\<Sum>(i, j)\<in>{1..<M - 1} \<times> {0, N - 1}. g i j)"
    unfolding boundary_cells_def
    by (rule sum.union_disjoint) (simp, simp, rule boundary_cells_disjoint)
  also have "(\<Sum>(i, j)\<in>{0, M - 1} \<times> {0..<N}. g i j) = (\<Sum>i\<in>{0, M - 1}. \<Sum>j = 0..<N. g i j)"
    by (simp add: sum.cartesian_product)
  also have "\<dots> = (\<Sum>j = 0..<N. g 0 j) + (\<Sum>j = 0..<N. g (M - 1) j)"
    using ne by simp
  also have "(\<Sum>(i, j)\<in>{1..<M - 1} \<times> {0, N - 1}. g i j)
      = (\<Sum>i = 1..<M - 1. \<Sum>j\<in>{0, N - 1}. g i j)"
    by (simp add: sum.cartesian_product)
  also have "\<dots> = (\<Sum>i = 1..<M - 1. g i 0 + g i (N - 1))"
    using ne by simp
  also have "\<dots> = (\<Sum>i = 1..<M - 1. g i 0) + (\<Sum>i = 1..<M - 1. g i (N - 1))"
    by (rule sum.distrib)
  finally show ?thesis
    by (simp add: boundary_sum_def)
qed

lemma card_boundary_cells:
  assumes "2 \<le> M" and "2 \<le> N"
  shows "card (boundary_cells M N) = 2 * M + 2 * N - 4"
proof -
  from assms have ne: "0 \<noteq> M - 1" "0 \<noteq> N - 1"
    by auto
  have "card (boundary_cells M N)
      = card ({0, M - 1} \<times> {0..<N}) + card ({1..<M - 1} \<times> {0, N - 1})"
    unfolding boundary_cells_def
    by (rule card_Un_disjoint) (simp, simp, rule boundary_cells_disjoint)
  also have "\<dots> = 2 * N + (M - 2) * 2"
    using ne by (simp add: card_cartesian_product)
  finally show ?thesis
    using assms by simp
qed

lemma boundary_not_interior: "(i, j) \<in> boundary_cells M N \<Longrightarrow> \<not> interior M N i j"
  by (auto simp: boundary_cells_def interior_def)

lemma w_setAverageBoundary:
  "w (setAverageBoundary M N s) i j =
     (if interior M N i j then mean (setAverageBoundary M N s) else w s i j)"
  by (simp add: setAverageBoundary_eq interior_iff)

lemma mean_setAverageBoundary:
  "mean (setAverageBoundary M N s) = boundary_sum M N (w s) / real_of_int (2 * int M + 2 * int N - 4)"
  by (simp add: setAverageBoundary_eq)

lemma boundary_cells_3:
  "boundary_cells 3 3 = {(0, 0), (0, 1), (0, 2), (2, 0), (2, 1), (2, 2), (1, 0), (1, 2)}"
  by (auto simp: boundary_cells_def)

lemma w_stamped_3:
  "w (setBoundaryValue 3 3 (entry_state eps)) i j =
     (if i = 0 \<and> j < 3 then 0 else if i < 3 \<and> j < 3 \<and> \<not> (i = 1 \<and> j = 1) then 100 else 0)"
  by (auto simp: w_setBoundaryValue w_entry)

subsection \<open>The loop as an iteration of the sweep\<close>

text \<open>
  The loop returns the state after \<open>n\<close> sweeps exactly when \<open>n\<close> is the least number
  of sweeps after which \<^verbatim>\<open>diff\<close> is below \<^verbatim>\<open>epsilon\<close>; it never returns exactly when
  there is no such number.
\<close>

lemma heat_loop_stop: "diff s < epsilon s \<Longrightarrow> heat_loop M N s = Some s"
  by (subst heat_loop.simps) simp

lemma heat_loop_step: "epsilon s \<le> diff s \<Longrightarrow> heat_loop M N s = heat_loop M N (sweep M N s)"
  by (subst heat_loop.simps) simp

lemma epsilon_sweeps: "epsilon ((sweep M N ^^ n) s) = epsilon s"
  by (induction n) (simp_all add: epsilon_sweep)

lemma iterations_sweeps: "iterations ((sweep M N ^^ n) s) = iterations s + int n"
  by (induction n) (simp_all add: iterations_sweep)

lemma heat_loop_sweeps:
  "(\<forall>k<n. epsilon s \<le> diff ((sweep M N ^^ k) s))
     \<Longrightarrow> heat_loop M N s = heat_loop M N ((sweep M N ^^ n) s)"
proof (induction n)
  case 0
  show ?case by simp
next
  case (Suc n)
  then have "heat_loop M N s = heat_loop M N ((sweep M N ^^ n) s)"
    by simp
  also have "\<dots> = heat_loop M N (sweep M N ((sweep M N ^^ n) s))"
    using Suc.prems by (intro heat_loop_step) (simp add: epsilon_sweeps)
  finally show ?case
    by simp
qed

lemma heat_loop_SomeD:
  assumes "heat_loop M N s = Some s'"
  shows "\<exists>n. s' = (sweep M N ^^ n) s \<and> diff s' < epsilon s
           \<and> (\<forall>k<n. epsilon s \<le> diff ((sweep M N ^^ k) s))"
  using assms
proof (induction M N s s' rule: heat_loop.raw_induct [rotated 1, consumes 1, case_names body])
  case (body loop M N s s')
  show ?case
  proof (cases "epsilon s \<le> diff s")
    case False
    with body.hyps have "s' = s"
      by simp
    with False have "s' = (sweep M N ^^ 0) s \<and> diff s' < epsilon s
        \<and> (\<forall>k<0. epsilon s \<le> diff ((sweep M N ^^ k) s))"
      by simp
    then show ?thesis ..
  next
    case True
    with body.hyps have "loop M N (sweep M N s) = Some s'"
      by simp
    from body.IH [OF this] obtain n where n: "s' = (sweep M N ^^ n) (sweep M N s)"
      "diff s' < epsilon (sweep M N s)"
      "\<forall>k<n. epsilon (sweep M N s) \<le> diff ((sweep M N ^^ k) (sweep M N s))"
      by blast
    have "\<forall>k<Suc n. epsilon s \<le> diff ((sweep M N ^^ k) s)"
    proof (intro allI impI)
      fix k
      assume "k < Suc n"
      show "epsilon s \<le> diff ((sweep M N ^^ k) s)"
      proof (cases k)
        case 0
        with True show ?thesis by simp
      next
        case (Suc k')
        with \<open>k < Suc n\<close> n(3) show ?thesis
          by (simp add: funpow_swap1 epsilon_sweep)
      qed
    qed
    with n(1,2) have "s' = (sweep M N ^^ Suc n) s \<and> diff s' < epsilon s
        \<and> (\<forall>k<Suc n. epsilon s \<le> diff ((sweep M N ^^ k) s))"
      by (simp add: funpow_swap1 epsilon_sweep)
    then show ?thesis ..
  qed
qed

lemma heat_loop_Some_iff:
  "heat_loop M N s = Some s' \<longleftrightarrow>
     (\<exists>n. s' = (sweep M N ^^ n) s \<and> diff s' < epsilon s
        \<and> (\<forall>k<n. epsilon s \<le> diff ((sweep M N ^^ k) s)))"
proof
  assume "heat_loop M N s = Some s'"
  then show "\<exists>n. s' = (sweep M N ^^ n) s \<and> diff s' < epsilon s
      \<and> (\<forall>k<n. epsilon s \<le> diff ((sweep M N ^^ k) s))"
    by (rule heat_loop_SomeD)
next
  assume "\<exists>n. s' = (sweep M N ^^ n) s \<and> diff s' < epsilon s
      \<and> (\<forall>k<n. epsilon s \<le> diff ((sweep M N ^^ k) s))"
  then obtain n where n: "s' = (sweep M N ^^ n) s" "diff s' < epsilon s"
    "\<forall>k<n. epsilon s \<le> diff ((sweep M N ^^ k) s)"
    by blast
  from n(3) have "heat_loop M N s = heat_loop M N s'"
    unfolding n(1) by (rule heat_loop_sweeps)
  also from n(1,2) have "\<dots> = Some s'"
    by (intro heat_loop_stop) (simp add: epsilon_sweeps)
  finally show "heat_loop M N s = Some s'" .
qed

lemma heat_loop_None_iff:
  "heat_loop M N s = None \<longleftrightarrow> (\<forall>n. epsilon s \<le> diff ((sweep M N ^^ n) s))"
proof
  assume none: "heat_loop M N s = None"
  show "\<forall>n. epsilon s \<le> diff ((sweep M N ^^ n) s)"
  proof
    fix n
    show "epsilon s \<le> diff ((sweep M N ^^ n) s)"
    proof (induction n rule: less_induct)
      case (less n)
      show ?case
      proof (rule ccontr)
        assume "\<not> epsilon s \<le> diff ((sweep M N ^^ n) s)"
        with less have "heat_loop M N s = Some ((sweep M N ^^ n) s)"
          by (subst heat_loop_Some_iff) (intro exI [of _ n], simp)
        with none show False
          by simp
      qed
    qed
  qed
next
  assume all: "\<forall>n. epsilon s \<le> diff ((sweep M N ^^ n) s)"
  show "heat_loop M N s = None"
  proof (cases "heat_loop M N s")
    case None
    then show ?thesis .
  next
    case (Some s')
    then obtain n where "s' = (sweep M N ^^ n) s" "diff s' < epsilon s"
      unfolding heat_loop_Some_iff by blast
    with all [rule_format, of n] show ?thesis
      by simp
  qed
qed





lemma main_loop:
  "main M N (Some eps) (Some f) = map_option Inr (heat_loop M N (prepared M N eps))"
  by (simp add: main_def getHeat_def prepared_def Let_def)

lemma main_first_sweep:
  "main M N (Some eps) (Some f)
     = map_option Inr (heat_loop M N (sweep M N (prepared M N eps)))"
  unfolding main_loop
  by (subst heat_loop_step) (simp_all add: prepared_fields)

subsection \<open>What a sweep leaves behind\<close>

lemma diff_sweep_nonneg: "0 \<le> diff (sweep M N s)"
  unfolding diff_sweep by (rule Max_ge) simp_all

lemma neighbour_mean_diff:
  "neighbour_mean g i j - neighbour_mean h i j =
     ((g (i - 1) j - h (i - 1) j) + (g (i + 1) j - h (i + 1) j)
        + (g i (j - 1) - h i (j - 1)) + (g i (j + 1) - h i (j + 1))) / 4"
  by (simp add: neighbour_mean_def field_simps)

lemma abs_mean4:
  fixes a b c d :: real
  assumes "\<bar>a\<bar> \<le> x" "\<bar>b\<bar> \<le> x" "\<bar>c\<bar> \<le> x" "\<bar>d\<bar> \<le> x"
  shows "\<bar>(a + b + c + d) / 4\<bar> \<le> x"
proof -
  have "\<bar>a + b + c + d\<bar> \<le> \<bar>a\<bar> + \<bar>b\<bar> + \<bar>c\<bar> + \<bar>d\<bar>"
    by linarith
  also have "\<dots> \<le> 4 * x"
    using assms by linarith
  finally show ?thesis
    by simp
qed

subsection \<open>The 3 by 3 plate\<close>

lemma w_sweep_3:
  "w (sweep 3 3 s) i j =
     (if i = 1 \<and> j = 1 then (w s 0 1 + w s 2 1 + w s 1 0 + w s 1 2) / 4 else w s i j)"
  by (auto simp: w_sweep interior_3 neighbour_mean_def numeral_2_eq_2)

lemma diff_sweep_3: "diff (sweep 3 3 s) = \<bar>w (sweep 3 3 s) 1 1 - w s 1 1\<bar>"
  unfolding diff_sweep cells_3 by simp

lemma first_sweep_3:
  "w (sweep 3 3 (prepared 3 3 eps)) i j =
     (if i = 1 \<and> j = 1 then 75 else if i = 0 \<and> j < 3 then 0 else if i < 3 \<and> j < 3 then 100 else 0)"
  "diff (sweep 3 3 (prepared 3 3 eps)) = 25 / 2"
  by (simp_all add: diff_sweep_3 w_sweep_3 w_prepared_3)

lemma second_sweep_3:
  "w (sweep 3 3 (sweep 3 3 (prepared 3 3 eps))) i j =
     (if i = 1 \<and> j = 1 then 75 else if i = 0 \<and> j < 3 then 0 else if i < 3 \<and> j < 3 then 100 else 0)"
  "diff (sweep 3 3 (sweep 3 3 (prepared 3 3 eps))) = 0"
  by (simp_all add: diff_sweep_3 w_sweep_3 [of "sweep 3 3 (prepared 3 3 eps)"] first_sweep_3)

lemma one_sweep_3:
  assumes "25 / 2 < eps"
  shows "main 3 3 (Some eps) (Some f) = Some (Inr (sweep 3 3 (prepared 3 3 eps)))"
  unfolding main_first_sweep using assms
  by (subst heat_loop_stop) (simp_all add: first_sweep_3 epsilon_sweep prepared_fields)

lemma two_sweeps_3:
  assumes "0 < eps" and "eps \<le> 25 / 2"
  shows "main 3 3 (Some eps) (Some f)
           = Some (Inr (sweep 3 3 (sweep 3 3 (prepared 3 3 eps))))"
proof -
  have "heat_loop 3 3 (sweep 3 3 (prepared 3 3 eps))
      = heat_loop 3 3 (sweep 3 3 (sweep 3 3 (prepared 3 3 eps)))"
    using assms by (intro heat_loop_step) (simp add: first_sweep_3 epsilon_sweep prepared_fields)
  also have "\<dots> = Some (sweep 3 3 (sweep 3 3 (prepared 3 3 eps)))"
    using assms by (intro heat_loop_stop) (simp add: second_sweep_3 epsilon_sweep prepared_fields)
  finally show ?thesis
    by (simp add: main_first_sweep)
qed


subsection \<open>The range of the values\<close>

lemma start_mean_range:
  assumes "2 \<le> M" and "1 \<le> N"
  shows "0 \<le> start_mean M N \<and> start_mean M N \<le> 100"
proof -
  from assms have M: "2 \<le> real M" and N: "1 \<le> real N"
    by simp_all
  then have pos: "0 < 2 * real M + 2 * real N - 4"
    by linarith
  have "0 \<le> 100 * (2 * (real M - 2) + real N)"
    using M N by simp
  then have lo: "0 \<le> start_mean M N"
    unfolding start_mean_def using pos by simp
  have "100 * (2 * (real M - 2) + real N) \<le> 100 * (2 * real M + 2 * real N - 4)"
    using N by simp
  then have hi: "start_mean M N \<le> 100"
    unfolding start_mean_def using pos by (simp add: pos_divide_le_eq)
  from lo hi show ?thesis ..
qed

lemma prepared_range:
  assumes "2 \<le> M" and "1 \<le> N"
  shows "0 \<le> w (prepared M N eps) i j \<and> w (prepared M N eps) i j \<le> 100"
  using start_mean_range [OF assms] by (simp add: w_prepared [OF assms])

lemma mean4_range:
  fixes a b c d :: real
  assumes "lo \<le> a" "a \<le> hi" "lo \<le> b" "b \<le> hi" "lo \<le> c" "c \<le> hi" "lo \<le> d" "d \<le> hi"
  shows "lo \<le> (a + b + c + d) / 4 \<and> (a + b + c + d) / 4 \<le> hi"
  using assms by (simp add: field_simps)

lemma neighbour_mean_range:
  assumes "interior M N i j"
    and "\<forall>i<M. \<forall>j<N. lo \<le> g i j \<and> g i j \<le> hi"
  shows "lo \<le> neighbour_mean g i j \<and> neighbour_mean g i j \<le> hi"
proof -
  from assms(1) have "i - 1 < M" "i + 1 < M" "i < M" "j - 1 < N" "j + 1 < N" "j < N"
    by (auto simp: interior_def)
  with assms(2) have "lo \<le> g (i - 1) j" "g (i - 1) j \<le> hi" "lo \<le> g (i + 1) j" "g (i + 1) j \<le> hi"
    "lo \<le> g i (j - 1)" "g i (j - 1) \<le> hi" "lo \<le> g i (j + 1)" "g i (j + 1) \<le> hi"
    by blast+
  then show ?thesis
    unfolding neighbour_mean_def by (rule mean4_range)
qed

lemma sweep_range:
  assumes "\<forall>i<M. \<forall>j<N. lo \<le> w s i j \<and> w s i j \<le> hi"
  shows "\<forall>i<M. \<forall>j<N. lo \<le> w (sweep M N s) i j \<and> w (sweep M N s) i j \<le> hi"
  using assms neighbour_mean_range [OF _ assms] by (simp add: w_sweep)

lemma sweeps_range:
  assumes "\<forall>i<M. \<forall>j<N. lo \<le> w s i j \<and> w s i j \<le> hi"
  shows "\<forall>i<M. \<forall>j<N. lo \<le> w ((sweep M N ^^ n) s) i j \<and> w ((sweep M N ^^ n) s) i j \<le> hi"
proof (induction n)
  case 0
  from assms show ?case by simp
next
  case (Suc n)
  from sweep_range [OF Suc] show ?case by simp
qed

lemma sweeps_boundary:
  assumes "\<not> interior M N i j"
  shows "w ((sweep M N ^^ n) s) i j = w s i j"
  using assms by (induction n) (simp_all add: w_sweep)

subsection \<open>A tolerance that is never undercut\<close>

text \<open>
  After a sweep \<^verbatim>\<open>diff\<close> is at least 0, so a tolerance that is zero or negative is
  never undercut: every test of the loop succeeds, and the run never leaves the loop.
\<close>

lemma heat_loop_diverges:
  assumes "epsilon s \<le> 0" and "epsilon s \<le> diff s"
  shows "heat_loop M N s = None"
  unfolding heat_loop_None_iff
proof
  fix n
  show "epsilon s \<le> diff ((sweep M N ^^ n) s)"
  proof (cases n)
    case 0
    with assms(2) show ?thesis by simp
  next
    case (Suc n')
    have "0 \<le> diff (sweep M N ((sweep M N ^^ n') s))"
      by (rule diff_sweep_nonneg)
    with assms(1) Suc show ?thesis by simp
  qed
qed

lemma main_diverges:
  assumes "eps \<le> 0"
  shows "main M N (Some eps) (Some f) = None"
proof -
  have "heat_loop M N (prepared M N eps) = None"
    using assms by (intro heat_loop_diverges) (simp_all add: prepared_fields)
  then show ?thesis
    by (simp add: main_loop)
qed

lemma heat_passes_never_stops:
  assumes "epsilon s \<le> 0" and "epsilon s \<le> diff s"
  shows "heat_passes M N k s = (sweep M N ^^ k) s"
  using assms
proof (induction k arbitrary: s)
  case 0
  show ?case by simp
next
  case (Suc k)
  have "epsilon (sweep M N s) \<le> 0"
    using Suc.prems(1) by (simp add: epsilon_sweep)
  moreover have "epsilon (sweep M N s) \<le> diff (sweep M N s)"
    using Suc.prems(1) diff_sweep_nonneg [of M N s] by (simp add: epsilon_sweep)
  ultimately have "heat_passes M N k (sweep M N s) = (sweep M N ^^ k) (sweep M N s)"
    by (rule Suc.IH)
  with Suc.prems(2) show ?case
    by (simp add: funpow_swap1)
qed

lemma main_error_iff:
  "main M N eps_in file_in = Some (Inl e) \<longleftrightarrow>
     (eps_in = None \<and> e = EpsilonReadError)
       \<or> (eps_in \<noteq> None \<and> file_in = None \<and> e = FilenameReadError)"
  by (auto simp: main_def Let_def split: option.splits)

subsection \<open>Rounding to binary64\<close>

lemma round64_200_3: "round64 (200 / 3) = 4691249611844267 / 70368744177664"
  by (simp add: round64_def quantum_def exponent_def round_even_def Let_def compute_bitlen)

lemma round64_1_10: "round64 (1 / 10) = 3602879701896397 / 36028797018963968"
  by (simp add: round64_def quantum_def exponent_def round_even_def Let_def compute_bitlen)

lemma round_even_near: "\<bar>of_int (round_even y) - y\<bar> \<le> 1 / 2"
  unfolding round_even_def Let_def by (auto simp: abs_le_iff)

lemma round_even_le: "y \<le> of_int n \<Longrightarrow> round_even y \<le> n"
  unfolding round_even_def Let_def by (auto simp: le_floor_iff floor_le_iff)

lemma round_even_ge:
  assumes "of_int n \<le> y"
  shows "n \<le> round_even y"
proof -
  from assms have "n \<le> \<lfloor>y\<rfloor>"
    by (simp add: le_floor_iff)
  then show ?thesis
    unfolding round_even_def Let_def by auto
qed

lemma quantum_pos: "0 < quantum x"
  by (simp add: quantum_def zero_less_power_int)

lemma exponent_less:
  assumes "x \<noteq> 0" and "\<bar>x\<bar> < 2 ^ k"
  shows "exponent x < int k"
proof (cases "1 \<le> \<bar>x\<bar>")
  case True
  let ?n = "\<lfloor>\<bar>x\<bar>\<rfloor>"
  from True have pos: "0 < ?n"
    by linarith
  from assms(2) have "real_of_int ?n < 2 ^ k"
    by linarith
  then have "?n < 2 ^ k"
    by (metis of_int_less_iff of_int_numeral of_int_power)
  with bitlen_bounds [OF pos] have "(2::int) ^ nat (bitlen ?n - 1) < 2 ^ k"
    by linarith
  then have "nat (bitlen ?n - 1) < k"
    by simp
  with True show ?thesis
    by (simp add: exponent_def)
next
  case False
  with assms(1) have "1 < 1 / \<bar>x\<bar>"
    by (simp add: field_simps)
  then have "0 < \<lceil>1 / \<bar>x\<bar>\<rceil> - 1"
    by linarith
  then have "bitlen (\<lceil>1 / \<bar>x\<bar>\<rceil> - 1) \<noteq> 0"
    by (simp add: bitlen_eq_zero_iff)
  with bitlen_nonneg [of "\<lceil>1 / \<bar>x\<bar>\<rceil> - 1"] have "0 < bitlen (\<lceil>1 / \<bar>x\<bar>\<rceil> - 1)"
    by linarith
  with False show ?thesis
    by (simp add: exponent_def)
qed

lemma quantum_le:
  assumes "x \<noteq> 0" and "\<bar>x\<bar> < 2 ^ k"
  shows "quantum x \<le> 2 powi (int k - 53)"
proof -
  from exponent_less [OF assms] have "max (exponent x) (- 1022) - 52 \<le> int k - 53"
    by simp
  then show ?thesis
    unfolding quantum_def by (intro power_int_increasing) simp_all
qed

lemma round64_near: "\<bar>round64 x - x\<bar> \<le> quantum x / 2"
proof (cases "x = 0")
  case True
  with quantum_pos [of x] show ?thesis
    by (simp add: round64_def)
next
  case False
  let ?q = "quantum x"
  have q: "0 < ?q"
    by (rule quantum_pos)
  have "of_int (round_even (x / ?q)) * ?q - x = (of_int (round_even (x / ?q)) - x / ?q) * ?q"
    using q by (simp add: left_diff_distrib)
  then have "\<bar>of_int (round_even (x / ?q)) * ?q - x\<bar> = \<bar>of_int (round_even (x / ?q)) - x / ?q\<bar> * ?q"
    using q by (simp only: abs_mult abs_of_pos)
  also have "\<dots> \<le> 1 / 2 * ?q"
    using q by (intro mult_right_mono round_even_near) simp
  finally show ?thesis
    using False by (simp add: round64_def)
qed

text \<open>Below 512 the error of one rounding is at most \<open>2 ^ -45\<close>.\<close>

lemma round64_error:
  assumes "\<bar>x\<bar> < 512"
  shows "\<bar>round64 x - x\<bar> \<le> 1 / 2 ^ 45"
proof (cases "x = 0")
  case True
  then show ?thesis by (simp add: round64_def)
next
  case False
  from assms have "\<bar>x\<bar> < 2 ^ 9"
    by simp
  from quantum_le [OF False this] have "quantum x \<le> 2 powi (- 44)"
    by simp
  then have "quantum x / 2 \<le> 1 / 2 ^ 45"
    by (simp add: power_int_minus_divide)
  with round64_near [of x] show ?thesis
    by linarith
qed

text \<open>An integer below \<open>2 ^ 53\<close> is a double, and rounding does not cross it.\<close>

lemma quantum_divides:
  assumes "x \<noteq> 0" and "\<bar>x\<bar> < 2 ^ 53"
  shows "\<exists>j. quantum x = 1 / 2 ^ j"
proof -
  from exponent_less [OF assms] have "max (exponent x) (- 1022) - 52 \<le> 0"
    by simp
  then have "quantum x = 1 / 2 ^ nat (- (max (exponent x) (- 1022) - 52))"
    unfolding quantum_def by (simp add: power_int_def field_simps)
  then show ?thesis ..
qed

lemma round64_le_int:
  assumes "x \<le> of_int b" and "\<bar>x\<bar> < 2 ^ 53"
  shows "round64 x \<le> of_int b"
proof (cases "x = 0")
  case True
  with assms show ?thesis by (simp add: round64_def)
next
  case False
  from quantum_divides [OF False assms(2)] obtain j where j: "quantum x = 1 / 2 ^ j" ..
  from assms(1) have "x / quantum x \<le> of_int (b * 2 ^ j)"
    by (simp add: j)
  then have "round_even (x / quantum x) \<le> b * 2 ^ j"
    by (rule round_even_le)
  then have "real_of_int (round_even (x / quantum x)) \<le> of_int b * 2 ^ j"
    by (metis of_int_le_iff of_int_mult of_int_numeral of_int_power)
  then show ?thesis
    using False by (simp add: round64_def j field_simps)
qed

lemma round64_ge_int:
  assumes "of_int b \<le> x" and "\<bar>x\<bar> < 2 ^ 53"
  shows "of_int b \<le> round64 x"
proof (cases "x = 0")
  case True
  with assms show ?thesis by (simp add: round64_def)
next
  case False
  from quantum_divides [OF False assms(2)] obtain j where j: "quantum x = 1 / 2 ^ j" ..
  from assms(1) have "of_int (b * 2 ^ j) \<le> x / quantum x"
    by (simp add: j)
  then have "b * 2 ^ j \<le> round_even (x / quantum x)"
    by (rule round_even_ge)
  then have "of_int b * 2 ^ j \<le> real_of_int (round_even (x / quantum x))"
    by (metis of_int_le_iff of_int_mult of_int_numeral of_int_power)
  then show ?thesis
    using False by (simp add: round64_def j field_simps)
qed

lemma round64_int:
  assumes "\<bar>real_of_int b\<bar> < 2 ^ 53"
  shows "round64 (of_int b) = of_int b"
  using round64_le_int [of "of_int b" b] round64_ge_int [of b "of_int b"] assms by simp

lemma exponent_brackets:
  assumes "x \<noteq> 0"
  shows "2 powi exponent x \<le> \<bar>x\<bar> \<and> \<bar>x\<bar> < 2 powi (exponent x + 1)"
proof (cases "1 \<le> \<bar>x\<bar>")
  case True
  let ?n = "\<lfloor>\<bar>x\<bar>\<rfloor>"
  from True have pos: "0 < ?n"
    by linarith
  then have b: "1 \<le> bitlen ?n"
    using bitlen_eq_zero_iff [of ?n] bitlen_nonneg [of ?n] by linarith
  from bitlen_bounds [OF pos] have "(2::int) ^ nat (bitlen ?n - 1) \<le> ?n" "?n + 1 \<le> (2::int) ^ nat (bitlen ?n)"
    by simp_all
  then have "real_of_int (2 ^ nat (bitlen ?n - 1)) \<le> of_int ?n" "real_of_int (?n + 1) \<le> of_int (2 ^ nat (bitlen ?n))"
    by (simp_all only: of_int_le_iff)
  then have p: "(2::real) ^ nat (bitlen ?n - 1) \<le> of_int ?n" "of_int ?n + 1 \<le> (2::real) ^ nat (bitlen ?n)"
    by simp_all
  have "of_int ?n \<le> \<bar>x\<bar>" "\<bar>x\<bar> < of_int ?n + 1"
    by linarith+
  with p have "(2::real) ^ nat (bitlen ?n - 1) \<le> \<bar>x\<bar>" "\<bar>x\<bar> < 2 ^ nat (bitlen ?n)"
    by (blast intro: order_trans less_le_trans)+
  with True b show ?thesis
    by (simp add: exponent_def power_int_def)
next
  case False
  let ?m = "\<lceil>1 / \<bar>x\<bar>\<rceil> - 1"
  from False assms have y: "1 < 1 / \<bar>x\<bar>"
    by (simp add: field_simps)
  then have pos: "0 < ?m"
    by linarith
  then have b: "1 \<le> bitlen ?m"
    using bitlen_eq_zero_iff [of ?m] bitlen_nonneg [of ?m] by linarith
  from bitlen_bounds [OF pos] have "(2::int) ^ nat (bitlen ?m - 1) \<le> ?m" "?m + 1 \<le> (2::int) ^ nat (bitlen ?m)"
    by simp_all
  then have "real_of_int (2 ^ nat (bitlen ?m - 1)) \<le> of_int ?m" "real_of_int (?m + 1) \<le> of_int (2 ^ nat (bitlen ?m))"
    by (simp_all only: of_int_le_iff)
  then have p: "(2::real) ^ nat (bitlen ?m - 1) \<le> of_int ?m" "of_int ?m + 1 \<le> (2::real) ^ nat (bitlen ?m)"
    by simp_all
  have "of_int ?m < 1 / \<bar>x\<bar>" "1 / \<bar>x\<bar> \<le> of_int ?m + 1"
    by linarith+
  with p have lo: "(2::real) ^ nat (bitlen ?m - 1) < 1 / \<bar>x\<bar>" and hi: "1 / \<bar>x\<bar> \<le> 2 ^ nat (bitlen ?m)"
    by (blast intro: order_trans le_less_trans)+
  from assms have ax: "0 < \<bar>x\<bar>"
    by simp
  from hi ax have "1 / 2 ^ nat (bitlen ?m) \<le> \<bar>x\<bar>"
    by (simp add: field_simps)
  moreover from lo ax have "\<bar>x\<bar> < 1 / 2 ^ nat (bitlen ?m - 1)"
    by (simp add: field_simps)
  moreover from b have "2 powi (- bitlen ?m) = (1::real) / 2 ^ nat (bitlen ?m)"
    "2 powi (- bitlen ?m + 1) = (1::real) / 2 ^ nat (bitlen ?m - 1)"
    by (simp_all add: power_int_def field_simps nat_diff_distrib)
  ultimately show ?thesis
    using False by (simp add: exponent_def)
qed

subsection \<open>One sweep in double arithmetic\<close>

lemma update_cell64_eq:
  "update_cell64 i j s =
     s\<lparr>w := put (w s) i j (neighbour_mean64 (u s) i j),
       diff := max (diff s) (change64 (u s) i j)\<rparr>"
  by (simp add: update_cell64_def Let_def put_apply max_def neighbour_mean64_def change64_def)

lemma fold_update64_row:
  "fold (\<lambda>j. update_cell64 i j) ys s =
     s\<lparr>w := (\<lambda>i' j'. if i' = i \<and> j' \<in> set ys then neighbour_mean64 (u s) i' j' else w s i' j'),
       diff := fold (\<lambda>j d. max d (change64 (u s) i j)) ys (diff s)\<rparr>"
proof (induction ys arbitrary: s)
  case Nil
  show ?case by simp
next
  case (Cons y ys)
  show ?case
    by (simp only: fold_simps o_apply Cons.IH)
      (simp add: update_cell64_eq cong: if_cong,
        rule arg_cong [where f = "\<lambda>g. s\<lparr>w := g, diff := d\<rparr>" for d],
        auto simp: fun_eq_iff put_apply)
qed

lemma fold_update64_rows:
  "fold (\<lambda>i. fold (\<lambda>j. update_cell64 i j) ys) xs s =
     s\<lparr>w := (\<lambda>i' j'. if i' \<in> set xs \<and> j' \<in> set ys
                     then neighbour_mean64 (u s) i' j' else w s i' j'),
       diff := Max (insert (diff s) ((\<lambda>(i, j). change64 (u s) i j) ` (set xs \<times> set ys)))\<rparr>"
proof (induction xs arbitrary: s)
  case Nil
  show ?case by simp
next
  case (Cons x xs)
  let ?d = "Max (insert (diff s) (change64 (u s) x ` set ys))"
  let ?A = "(\<lambda>(i, j). change64 (u s) i j) ` (set xs \<times> set ys)"
  have split: "(\<lambda>(i, j). change64 (u s) i j) ` (set (x # xs) \<times> set ys)
      = change64 (u s) x ` set ys \<union> ?A"
    by (auto simp: image_iff)
  have "Max (insert ?d ?A) = Max (insert (diff s) (change64 (u s) x ` set ys) \<union> ?A)"
  proof (cases "?A = {}")
    case True
    show ?thesis by (simp only: True Un_empty_right Max_singleton)
  next
    case False
    then show ?thesis
      by (subst Max_Un) (simp_all add: max.commute)
  qed
  then have m: "Max (insert ?d ?A)
      = Max (insert (diff s) ((\<lambda>(i, j). change64 (u s) i j) ` (set (x # xs) \<times> set ys)))"
    by (simp only: split Un_insert_left)
  show ?case
    apply (simp only: fold_simps o_apply Cons.IH)
    apply (simp only: fold_update64_row fold_max)
    apply (simp add: m del: Max_insert cong: if_cong)
    apply (rule arg_cong [where f = "\<lambda>g. s\<lparr>w := g, diff := d\<rparr>" for d])
    apply (auto simp: fun_eq_iff)
    done
qed

lemma relax64_eq:
  "relax64 M N s =
     s\<lparr>w := (\<lambda>i j. if 1 \<le> i \<and> i < M - 1 \<and> 1 \<le> j \<and> j < N - 1
                   then neighbour_mean64 (u s) i j else w s i j),
       diff := Max (insert (diff s)
                 ((\<lambda>(i, j). change64 (u s) i j) ` ({1..<M - 1} \<times> {1..<N - 1})))\<rparr>"
  unfolding relax64_def fold_update64_rows
  by (simp only: set_upt) (rule arg_cong [where f = "\<lambda>g. s\<lparr>w := g, diff := d\<rparr>" for d], auto simp: fun_eq_iff)

lemma epsilon_sweep64: "epsilon (sweep64 M N s) = epsilon s"
  by (simp add: sweep64_def Let_def save_old_eq relax64_eq)

lemma iterations_sweep64: "iterations (sweep64 M N s) = iterations s + 1"
  by (simp add: sweep64_def Let_def save_old_eq relax64_eq)

lemma u_sweep64: "u (sweep64 M N s) i j = (if i < M \<and> j < N then w s i j else u s i j)"
  by (simp add: sweep64_def Let_def save_old_eq relax64_eq)

lemma w_sweep64_u:
  "w (sweep64 M N s) i j =
     (if interior M N i j then neighbour_mean64 (u (sweep64 M N s)) i j else w s i j)"
  by (simp add: sweep64_def Let_def save_old_eq relax64_eq interior_iff)

lemma diff_sweep64_u:
  "diff (sweep64 M N s) =
     Max (insert 0 ((\<lambda>(i, j). change64 (u (sweep64 M N s)) i j) ` ({1..<M - 1} \<times> {1..<N - 1})))"
  by (simp add: sweep64_def Let_def save_old_eq relax64_eq del: Max_insert)

lemma neighbour_mean64_snapshot:
  assumes "interior M N i j"
  shows "neighbour_mean64 (u (sweep64 M N s)) i j = neighbour_mean64 (w s) i j"
proof -
  from assms have "i - 1 < M" "i + 1 < M" "i < M" "j - 1 < N" "j + 1 < N" "j < N"
    by (auto simp: interior_def)
  then show ?thesis
    by (simp add: neighbour_mean64_def u_sweep64)
qed

lemma w_sweep64:
  "w (sweep64 M N s) i j = (if interior M N i j then neighbour_mean64 (w s) i j else w s i j)"
  by (simp add: w_sweep64_u neighbour_mean64_snapshot)

lemma change64_snapshot:
  assumes "interior M N i j"
  shows "change64 (u (sweep64 M N s)) i j = \<bar>dsub (w (sweep64 M N s) i j) (w s i j)\<bar>"
proof -
  from assms have "i < M" "j < N"
    by (auto simp: interior_def)
  with assms show ?thesis
    by (simp add: change64_def w_sweep64_u u_sweep64)
qed

lemma diff_sweep64:
  "diff (sweep64 M N s) =
     Max (insert 0 ((\<lambda>(i, j). \<bar>dsub (w (sweep64 M N s) i j) (w s i j)\<bar>)
       ` ({1..<M - 1} \<times> {1..<N - 1})))"
proof -
  have "(\<lambda>(i, j). change64 (u (sweep64 M N s)) i j) ` ({1..<M - 1} \<times> {1..<N - 1})
      = (\<lambda>(i, j). \<bar>dsub (w (sweep64 M N s) i j) (w s i j)\<bar>) ` ({1..<M - 1} \<times> {1..<N - 1})"
    by (rule image_cong) (auto simp: change64_snapshot interior_iff)
  then show ?thesis
    by (simp only: diff_sweep64_u)
qed

lemma diff_sweep64_nonneg: "0 \<le> diff (sweep64 M N s)"
  unfolding diff_sweep64 by (rule Max_ge) simp_all

lemma cell_change64_le_diff:
  assumes "interior M N i j"
  shows "\<bar>dsub (w (sweep64 M N s) i j) (w s i j)\<bar> \<le> diff (sweep64 M N s)"
proof -
  from assms have "(i, j) \<in> {1..<M - 1} \<times> {1..<N - 1}"
    by (auto simp: interior_def)
  then have "\<bar>dsub (w (sweep64 M N s) i j) (w s i j)\<bar>
      \<in> insert 0 ((\<lambda>(i, j). \<bar>dsub (w (sweep64 M N s) i j) (w s i j)\<bar>)
          ` ({1..<M - 1} \<times> {1..<N - 1}))"
    by (intro insertI2 image_eqI [where x = "(i, j)"]) simp_all
  then show ?thesis
    unfolding diff_sweep64 [of M N s] by (intro Max_ge) simp_all
qed

subsection \<open>The state in which the loop is reached, in double arithmetic\<close>

lemma fold_add_mean64:
  "fold (\<lambda>k s. s\<lparr>mean := dadd (mean s) (w s (r k) (c k))\<rparr>) xs (s::plate)
     = s\<lparr>mean := fold (\<lambda>k m. dadd m (w s (r k) (c k))) xs (mean s)\<rparr>"
  by (induction xs arbitrary: s) simp_all

lemma fold_dadd_int:
  assumes "\<forall>k\<in>set xs. g k = of_int b" and "0 \<le> a" and "0 \<le> b"
    and "a + b * int (length xs) < 2 ^ 53"
  shows "fold (\<lambda>k m. dadd m (g k)) xs (of_int a) = of_int (a + b * int (length xs))"
  using assms
proof (induction xs arbitrary: a)
  case Nil
  show ?case by simp
next
  case (Cons x xs)
  from Cons.prems have le: "a + b \<le> a + b * int (length (x # xs))"
    by (simp add: algebra_simps mult_nonneg_nonneg)
  with Cons.prems have "\<bar>real_of_int (a + b)\<bar> < 2 ^ 53"
    by (metis abs_of_nonneg add_nonneg_nonneg le_less_trans of_int_0_le_iff of_int_less_iff
        of_int_numeral of_int_power)
  then have "dadd (of_int a) (of_int b) = of_int (a + b)"
    unfolding dadd_def of_int_add [symmetric] by (rule round64_int)
  moreover have "fold (\<lambda>k m. dadd m (g k)) xs (of_int (a + b))
      = of_int ((a + b) + b * int (length xs))"
    using Cons.prems by (intro Cons.IH) (simp_all add: algebra_simps)
  ultimately show ?case
    using Cons.prems(1) by (simp add: algebra_simps)
qed

lemma mean_sum64:
  assumes "2 \<le> M" and "1 \<le> N" and "2 * M + 2 * N < 2 ^ 31"
  shows "mean (add_north64 M N (add_south64 M N (add_east64 M N (add_west64 M N
           ((setBoundaryValue M N s)\<lparr>mean := 0\<rparr>)))))
         = 100 * (2 * (real M - 2) + real N)"
proof -
  let ?s = "(setBoundaryValue M N s)\<lparr>mean := 0\<rparr>"
  have small: "200 * (int M - 2) + 100 * int N < 2 ^ 53"
    using assms(3) by simp
  have len: "int (length [1..<M - 1]) = int M - 2" "int (length [0..<N]) = int N"
    using assms by simp_all
  have west: "\<forall>i\<in>set [1..<M - 1]. w ?s i 0 = of_int 100"
    using assms by (auto simp: w_setBoundaryValue)
  have east: "\<forall>i\<in>set [1..<M - 1]. w ?s i (N - 1) = of_int 100"
    using assms by (auto simp: w_setBoundaryValue)
  have south: "\<forall>j\<in>set [0..<N]. w ?s (M - 1) j = of_int 100"
    using assms by (auto simp: w_setBoundaryValue)
  have north: "\<forall>j\<in>set [0..<N]. w ?s 0 j = of_int 0"
    using assms by (auto simp: w_setBoundaryValue)
  have 1: "add_west64 M N ?s = ?s\<lparr>mean := of_int (100 * (int M - 2))\<rparr>"
    unfolding add_west64_def fold_add_mean64 [where r = "\<lambda>k. k" and c = "\<lambda>k. 0"]
    using fold_dadd_int [OF west, of 0] small assms len by simp
  have 2: "add_east64 M N (?s\<lparr>mean := of_int (100 * (int M - 2))\<rparr>)
      = ?s\<lparr>mean := of_int (200 * (int M - 2))\<rparr>"
    unfolding add_east64_def fold_add_mean64 [where r = "\<lambda>k. k" and c = "\<lambda>k. N - 1"]
    using fold_dadd_int [OF east, of "100 * (int M - 2)"] small assms len by simp
  have 3: "add_south64 M N (?s\<lparr>mean := of_int (200 * (int M - 2))\<rparr>)
      = ?s\<lparr>mean := of_int (200 * (int M - 2) + 100 * int N)\<rparr>"
    unfolding add_south64_def fold_add_mean64 [where r = "\<lambda>k. M - 1" and c = "\<lambda>k. k"]
    using fold_dadd_int [OF south, of "200 * (int M - 2)"] small assms len by simp
  have 4: "add_north64 M N (?s\<lparr>mean := of_int (200 * (int M - 2) + 100 * int N)\<rparr>)
      = ?s\<lparr>mean := of_int (200 * (int M - 2) + 100 * int N)\<rparr>"
    unfolding add_north64_def fold_add_mean64 [where r = "\<lambda>k. 0" and c = "\<lambda>k. k"]
    using fold_dadd_int [OF north, of "200 * (int M - 2) + 100 * int N"] small assms len by simp
  show ?thesis
    unfolding 1 2 3 4 by simp
qed

lemma prepared64_fields:
  "epsilon (prepared64 M N eps) = eps" "diff (prepared64 M N eps) = eps"
  "iterations (prepared64 M N eps) = 0" "iterations_print (prepared64 M N eps) = 1"
  by (simp_all add: prepared64_def setAverageBoundary64_def Let_def fill_interior_eq
      add_west64_def add_east64_def add_south64_def add_north64_def fold_add_mean64
      setBoundaryValue_def stamp_west_eq stamp_east_eq stamp_south_eq stamp_north_eq
      entry_state_def initial_def)

lemma w_prepared64:
  assumes "2 \<le> M" and "1 \<le> N" and "2 * M + 2 * N < 2 ^ 31"
  shows "w (prepared64 M N eps) i j =
     (if interior M N i j then start_mean64 M N
      else if i = 0 \<and> j < N then 0
      else if i < M \<and> j < N then 100
      else 0)"
proof -
  have m: "mean (add_north64 M N (add_south64 M N (add_east64 M N (add_west64 M N
      ((setBoundaryValue M N (entry_state eps))\<lparr>mean := 0\<rparr>))))) = 100 * (2 * (real M - 2) + real N)"
    using assms by (rule mean_sum64)
  have g: "w (add_north64 M N (add_south64 M N (add_east64 M N (add_west64 M N t)))) = w t" for t
    by (simp add: add_west64_def add_east64_def add_south64_def add_north64_def fold_add_mean64)
  show ?thesis
    using assms
    by (auto simp add: prepared64_def setAverageBoundary64_def Let_def fill_interior_eq m g
        start_mean64_def w_setBoundaryValue w_entry interior_iff)
qed

lemma start_mean64_range:
  assumes "2 \<le> M" and "1 \<le> N"
  shows "0 \<le> start_mean64 M N \<and> start_mean64 M N \<le> 100"
proof -
  define x where "x = 100 * (2 * (real M - 2) + real N) / (2 * real M + 2 * real N - 4)"
  have "x = start_mean M N"
    by (simp add: start_mean_def x_def)
  with start_mean_range [OF assms] have x: "of_int 0 \<le> x" "x \<le> of_int 100"
    by simp_all
  then have small: "\<bar>x\<bar> < 2 ^ 53"
    by simp
  from round64_ge_int [OF x(1) small] round64_le_int [OF x(2) small] show ?thesis
    by (simp add: start_mean64_def ddiv_def x_def)
qed

subsection \<open>Range and rounding error of a sweep\<close>

lemma dadd_range:
  assumes "0 \<le> x" "x \<le> of_int a" "0 \<le> y" "y \<le> of_int b" "a + b \<le> 400"
  shows "0 \<le> dadd x y \<and> dadd x y \<le> of_int (a + b)"
proof -
  from assms have "real_of_int (a + b) \<le> 400"
    by (metis of_int_le_iff of_int_numeral)
  with assms have lo: "of_int 0 \<le> x + y" and hi: "x + y \<le> of_int (a + b)" and small: "\<bar>x + y\<bar> < 2 ^ 53"
    by simp_all
  from round64_ge_int [OF lo small] round64_le_int [OF hi small] show ?thesis
    by (simp add: dadd_def)
qed

lemma neighbour_mean64_range:
  assumes "interior M N i j" and "\<forall>i<M. \<forall>j<N. 0 \<le> g i j \<and> g i j \<le> 100"
  shows "0 \<le> neighbour_mean64 g i j \<and> neighbour_mean64 g i j \<le> 100"
proof -
  from assms(1) have "i - 1 < M" "i + 1 < M" "i < M" "j - 1 < N" "j + 1 < N" "j < N"
    by (auto simp: interior_def)
  with assms(2) have a: "0 \<le> g (i - 1) j" "g (i - 1) j \<le> of_int 100"
    and b: "0 \<le> g (i + 1) j" "g (i + 1) j \<le> of_int 100"
    and c: "0 \<le> g i (j - 1)" "g i (j - 1) \<le> of_int 100"
    and d: "0 \<le> g i (j + 1)" "g i (j + 1) \<le> of_int 100"
    by simp_all
  let ?s1 = "dadd (g (i - 1) j) (g (i + 1) j)"
  let ?s2 = "dadd ?s1 (g i (j - 1))"
  let ?s3 = "dadd ?s2 (g i (j + 1))"
  from dadd_range [OF a b] have s1: "0 \<le> ?s1" "?s1 \<le> of_int 200"
    by simp_all
  from dadd_range [OF s1 c] have s2: "0 \<le> ?s2" "?s2 \<le> of_int 300"
    by simp_all
  from dadd_range [OF s2 d] have s3: "0 \<le> ?s3" "?s3 \<le> 400"
    by simp_all
  then have lo: "of_int 0 \<le> ?s3 / 4" and hi: "?s3 / 4 \<le> of_int 100" and small: "\<bar>?s3 / 4\<bar> < 2 ^ 53"
    by simp_all
  from round64_ge_int [OF lo small] round64_le_int [OF hi small] show ?thesis
    by (simp add: neighbour_mean64_def ddiv_def)
qed

lemma sweep64_range:
  assumes "\<forall>i<M. \<forall>j<N. 0 \<le> w s i j \<and> w s i j \<le> 100"
  shows "\<forall>i<M. \<forall>j<N. 0 \<le> w (sweep64 M N s) i j \<and> w (sweep64 M N s) i j \<le> 100"
  using assms neighbour_mean64_range [OF _ assms] by (simp add: w_sweep64)

lemma sweeps64_range:
  assumes "\<forall>i<M. \<forall>j<N. 0 \<le> w s i j \<and> w s i j \<le> 100"
  shows "\<forall>i<M. \<forall>j<N. 0 \<le> w ((sweep64 M N ^^ n) s) i j \<and> w ((sweep64 M N ^^ n) s) i j \<le> 100"
proof (induction n)
  case 0
  from assms show ?case by simp
next
  case (Suc n)
  from sweep64_range [OF Suc] show ?case by simp
qed

lemma prepared64_range:
  assumes "2 \<le> M" and "1 \<le> N" and "2 * M + 2 * N < 2 ^ 31"
  shows "0 \<le> w (prepared64 M N eps) i j \<and> w (prepared64 M N eps) i j \<le> 100"
  using start_mean64_range [OF assms(1,2)] by (simp add: w_prepared64 [OF assms])

text \<open>The computed average is within \<open>2 ^ -44\<close> of the exact one.\<close>

lemma neighbour_mean64_error:
  assumes "interior M N i j" and "\<forall>i<M. \<forall>j<N. 0 \<le> g i j \<and> g i j \<le> 100"
  shows "\<bar>neighbour_mean64 g i j - neighbour_mean g i j\<bar> \<le> 2 / 2 ^ 45"
proof -
  from assms(1) have "i - 1 < M" "i + 1 < M" "i < M" "j - 1 < N" "j + 1 < N" "j < N"
    by (auto simp: interior_def)
  with assms(2) have a: "0 \<le> g (i - 1) j" "g (i - 1) j \<le> of_int 100"
    and b: "0 \<le> g (i + 1) j" "g (i + 1) j \<le> of_int 100"
    and c: "0 \<le> g i (j - 1)" "g i (j - 1) \<le> of_int 100"
    and d: "0 \<le> g i (j + 1)" "g i (j + 1) \<le> of_int 100"
    by simp_all
  define s1 where "s1 = dadd (g (i - 1) j) (g (i + 1) j)"
  define s2 where "s2 = dadd s1 (g i (j - 1))"
  define s3 where "s3 = dadd s2 (g i (j + 1))"
  from dadd_range [OF a b] have r1: "0 \<le> s1" "s1 \<le> of_int 200"
    by (simp_all add: s1_def)
  from dadd_range [OF r1 c] have r2: "0 \<le> s2" "s2 \<le> of_int 300"
    by (simp_all add: s2_def)
  from dadd_range [OF r2 d] have r3: "0 \<le> s3" "s3 \<le> 400"
    by (simp_all add: s3_def)
  have e1: "\<bar>s1 - (g (i - 1) j + g (i + 1) j)\<bar> \<le> 1 / 2 ^ 45"
    unfolding s1_def dadd_def using a b by (intro round64_error) simp
  have e2: "\<bar>s2 - (s1 + g i (j - 1))\<bar> \<le> 1 / 2 ^ 45"
    unfolding s2_def dadd_def using r1 c by (intro round64_error) simp
  have e3: "\<bar>s3 - (s2 + g i (j + 1))\<bar> \<le> 1 / 2 ^ 45"
    unfolding s3_def dadd_def using r2 d by (intro round64_error) simp
  have e4: "\<bar>round64 (s3 / 4) - s3 / 4\<bar> \<le> 1 / 2 ^ 45"
    using r3 by (intro round64_error) simp
  have nm64: "neighbour_mean64 g i j = round64 (s3 / 4)"
    by (simp add: neighbour_mean64_def ddiv_def s1_def s2_def s3_def)
  have nm: "neighbour_mean g i j = (g (i - 1) j + g (i + 1) j + g i (j - 1) + g i (j + 1)) / 4"
    by (simp add: neighbour_mean_def)
  define t where "t = g (i - 1) j + g (i + 1) j + g i (j - 1) + g i (j + 1)"
  define e :: real where "e = 1 / 2 ^ 45"
  define y where "y = s3 / 4"
  define z where "z = t / 4"
  have "\<bar>s3 - t\<bar> \<le> 3 * e"
    using e1 e2 e3 unfolding t_def e_def by linarith
  then have "\<bar>y - z\<bar> \<le> 3 * e / 4"
    unfolding y_def z_def diff_divide_distrib [symmetric] by simp
  moreover have "\<bar>round64 y - y\<bar> \<le> e"
    using e4 by (simp only: y_def e_def)
  moreover have "0 \<le> e"
    by (simp add: e_def)
  ultimately have "\<bar>round64 y - z\<bar> \<le> 2 * e"
    by linarith
  then show ?thesis
    by (simp only: nm64 nm t_def y_def z_def e_def)
qed

lemma heat_loop64_stop: "diff s < epsilon s \<Longrightarrow> heat_loop64 M N s = Some s"
  by (subst heat_loop64.simps) simp

lemma heat_loop64_step:
  "epsilon s \<le> diff s \<Longrightarrow> heat_loop64 M N s = heat_loop64 M N (sweep64 M N s)"
  by (subst heat_loop64.simps) simp

lemma epsilon_sweeps64: "epsilon ((sweep64 M N ^^ n) s) = epsilon s"
  by (induction n) (simp_all add: epsilon_sweep64)

lemma heat_loop64_SomeD:
  assumes "heat_loop64 M N s = Some s'"
  shows "\<exists>n. s' = (sweep64 M N ^^ n) s \<and> diff s' < epsilon s"
  using assms
proof (induction M N s s' rule: heat_loop64.raw_induct [rotated 1, consumes 1, case_names body])
  case (body loop M N s s')
  show ?case
  proof (cases "epsilon s \<le> diff s")
    case False
    with body.hyps have "s' = (sweep64 M N ^^ 0) s \<and> diff s' < epsilon s"
      by simp
    then show ?thesis ..
  next
    case True
    with body.hyps have "loop M N (sweep64 M N s) = Some s'"
      by simp
    from body.IH [OF this] obtain n where "s' = (sweep64 M N ^^ n) (sweep64 M N s)"
      "diff s' < epsilon (sweep64 M N s)"
      by blast
    then have "s' = (sweep64 M N ^^ Suc n) s \<and> diff s' < epsilon s"
      by (simp add: funpow_swap1 epsilon_sweep64)
    then show ?thesis ..
  qed
qed

lemma main64_loop:
  "main64 M N (Some eps) (Some f) = map_option Inr (heat_loop64 M N (prepared64 M N eps))"
  by (simp add: main64_def getHeat64_def prepared64_def Let_def)

lemma main64_SomeD:
  assumes "main64 M N (Some eps) (Some f) = Some (Inr s')"
  shows "\<exists>n. s' = sweep64 M N ((sweep64 M N ^^ n) (prepared64 M N eps)) \<and> diff s' < eps"
proof -
  from assms have "heat_loop64 M N (prepared64 M N eps) = Some s'"
    by (auto simp: main64_loop)
  from heat_loop64_SomeD [OF this]
  obtain n where n: "s' = (sweep64 M N ^^ n) (prepared64 M N eps)" "diff s' < eps"
    by (auto simp: prepared64_fields)
  have "n \<noteq> 0"
  proof
    assume "n = 0"
    with n have "diff (prepared64 M N eps) < eps"
      by simp
    then show False
      by (simp add: prepared64_fields)
  qed
  then obtain n' where "n = Suc n'"
    by (cases n) auto
  with n show ?thesis
    by auto
qed

text \<open>
  After a sweep, a cell has moved by at most \<^verbatim>\<open>diff\<close> and one rounding of the
  subtraction.
\<close>

lemma cell_moved64:
  assumes "\<forall>i<M. \<forall>j<N. 0 \<le> w s i j \<and> w s i j \<le> 100" and "i < M" and "j < N"
  shows "\<bar>w (sweep64 M N s) i j - w s i j\<bar> \<le> diff (sweep64 M N s) + 1 / 2 ^ 45"
proof (cases "interior M N i j")
  case False
  with diff_sweep64_nonneg [of M N s] show ?thesis
    by (simp add: w_sweep64)
next
  case True
  from assms have old: "0 \<le> w s i j" "w s i j \<le> 100"
    by simp_all
  from sweep64_range [OF assms(1)] assms(2,3)
  have new: "0 \<le> w (sweep64 M N s) i j" "w (sweep64 M N s) i j \<le> 100"
    by simp_all
  from old new have "\<bar>w (sweep64 M N s) i j - w s i j\<bar> < 512"
    by linarith
  then have "\<bar>round64 (w (sweep64 M N s) i j - w s i j) - (w (sweep64 M N s) i j - w s i j)\<bar>
      \<le> 1 / 2 ^ 45"
    by (rule round64_error)
  moreover from cell_change64_le_diff [OF True, of s]
  have "\<bar>round64 (w (sweep64 M N s) i j - w s i j)\<bar> \<le> diff (sweep64 M N s)"
    by (simp add: dsub_def)
  ultimately show ?thesis
    by linarith
qed

lemma swept64_near_harmonic:
  assumes "\<forall>i<M. \<forall>j<N. 0 \<le> w s i j \<and> w s i j \<le> 100" and "interior M N i j"
  shows "\<bar>w (sweep64 M N s) i j - neighbour_mean (w (sweep64 M N s)) i j\<bar>
           \<le> diff (sweep64 M N s) + 3 / 2 ^ 45"
proof -
  from assms(2) have in_grid: "i - 1 < M" "i + 1 < M" "i < M" "j - 1 < N" "j + 1 < N" "j < N"
    by (auto simp: interior_def)
  have "\<bar>neighbour_mean (w (sweep64 M N s)) i j - neighbour_mean (w s) i j\<bar>
      \<le> diff (sweep64 M N s) + 1 / 2 ^ 45"
    unfolding neighbour_mean_diff
    using in_grid by (intro abs_mean4 cell_moved64 [OF assms(1)])
  moreover have "\<bar>w (sweep64 M N s) i j - neighbour_mean (w s) i j\<bar> \<le> 2 / 2 ^ 45"
    using neighbour_mean64_error [OF assms(2,1)] assms(2) by (simp add: w_sweep64)
  ultimately show ?thesis
    by linarith
qed

text \<open>With a tolerance that is not positive the double program never returns either.\<close>

lemma heat_loop64_diverges:
  assumes "epsilon s \<le> 0" and "epsilon s \<le> diff s"
  shows "heat_loop64 M N s = None"
proof (cases "heat_loop64 M N s")
  case None
  then show ?thesis .
next
  case (Some s')
  from heat_loop64_SomeD [OF this]
  obtain n where n: "s' = (sweep64 M N ^^ n) s" "diff s' < epsilon s"
    by blast
  show ?thesis
  proof (cases n)
    case 0
    with n assms(2) show ?thesis by simp
  next
    case (Suc k)
    with n(1) have "0 \<le> diff s'"
      by (simp add: diff_sweep64_nonneg)
    with n(2) assms(1) show ?thesis by simp
  qed
qed

lemma main64_diverges:
  assumes "eps \<le> 0"
  shows "main64 M N (Some eps) (Some f) = None"
proof -
  have "heat_loop64 M N (prepared64 M N eps) = None"
    using assms by (intro heat_loop64_diverges) (simp_all add: prepared64_fields)
  then show ?thesis
    by (simp add: main64_loop)
qed

subsection \<open>The 3 by 4 plate in double arithmetic\<close>

lemmas double_eval =
  dadd_def dsub_def ddiv_def round64_def quantum_def exponent_def round_even_def Let_def
  compute_bitlen

lemma interior_34: "interior 3 4 i j \<longleftrightarrow> i = 1 \<and> (j = 1 \<or> j = 2)"
  by (auto simp: interior_def)

lemma cells_34: "{1..<3 - 1} \<times> {1..<4 - 1} = {(1::nat, 1::nat), (1, 2)}"
  by auto

lemma start_mean64_34: "start_mean64 3 4 = 60"
  by (simp add: start_mean64_def double_eval)

lemma on34_prepared: "on34 (prepared64 3 4 (1 / 2 ^ 50)) 60 60 (1 / 2 ^ 50)"
  by (simp add: on34_def w_prepared64 interior_34 start_mean64_34 prepared64_fields)

lemma on34_sweep:
  assumes "on34 s a b d"
  shows "on34 (sweep64 3 4 s)
           (ddiv (dadd (dadd (dadd 0 100) 100) b) 4)
           (ddiv (dadd (dadd (dadd 0 100) a) 100) 4)
           (max 0 (max \<bar>dsub (ddiv (dadd (dadd (dadd 0 100) 100) b) 4) a\<bar>
                       \<bar>dsub (ddiv (dadd (dadd (dadd 0 100) a) 100) 4) b\<bar>))"
proof -
  from assms have b: "w s 0 1 = 0" "w s 0 2 = 0" "w s 2 1 = 100" "w s 2 2 = 100"
    "w s 1 0 = 100" "w s 1 3 = 100" "w s 1 1 = a" "w s 1 2 = b" "epsilon s = 1 / 2 ^ 50"
    by (simp_all add: on34_def)
  have i: "interior 3 4 1 1" "interior 3 4 1 2"
    by (simp_all add: interior_34)
  have n: "(1::nat) - 1 = 0" "(1::nat) + 1 = 2" "(2::nat) - 1 = 1" "(2::nat) + 1 = 3"
    by simp_all
  have c1: "w (sweep64 3 4 s) 1 1 = ddiv (dadd (dadd (dadd 0 100) 100) b) 4"
    by (simp only: w_sweep64 i if_True neighbour_mean64_def n b)
  have c2: "w (sweep64 3 4 s) 1 2 = ddiv (dadd (dadd (dadd 0 100) a) 100) 4"
    by (simp only: w_sweep64 i if_True neighbour_mean64_def n b)
  have d: "diff (sweep64 3 4 s) = max 0 (max \<bar>dsub (w (sweep64 3 4 s) 1 1) a\<bar>
      \<bar>dsub (w (sweep64 3 4 s) 1 2) b\<bar>)"
    unfolding diff_sweep64 cells_34 using b by simp
  show ?thesis
    unfolding on34_def using b c1 c2 d by (simp add: w_sweep64 interior_34 epsilon_sweep64)
qed

lemma on34_again:
  assumes "on34 s a b d" and "1 / 2 ^ 50 \<le> d"
  shows "heat_loop64 3 4 s = heat_loop64 3 4 (sweep64 3 4 s)"
  using assms by (intro heat_loop64_step) (simp add: on34_def)

lemma on34_stop:
  assumes "on34 s a b d" and "d < 1 / 2 ^ 50"
  shows "heat_loop64 3 4 s = Some s"
  using assms by (intro heat_loop64_stop) (simp add: on34_def)

text \<open>
  The run on the 3 by 4 plate with tolerance \<open>2 ^ -50\<close>, sweep by sweep.  The two cells
  start at 60; the first 24 sweeps are exact, sweep 25 rounds, and sweep 26 changes
  nothing, so the loop is left with \<^verbatim>\<open>diff\<close> equal to 0.
\<close>

lemma run_34:
  "main64 3 4 (Some (1 / 2 ^ 50)) (Some f)
     = Some (Inr ((sweep64 3 4 ^^ 26) (prepared64 3 4 (1 / 2 ^ 50)))) \<and>
   on34 ((sweep64 3 4 ^^ 26) (prepared64 3 4 (1 / 2 ^ 50)))
     (2345624805922133 / 35184372088832) (2345624805922133 / 35184372088832) 0"
proof -
  let ?s0 = "prepared64 3 4 (1 / 2 ^ 50)"
  have p0: "on34 ?s0 60 60 (1 / 2 ^ 50)"
    by (rule on34_prepared)
  let ?s1 = "sweep64 3 4 ?s0"
  have p1: "on34 ?s1 (65) (65) (5)"
    using on34_sweep [OF p0] by (simp add: double_eval)
  let ?s2 = "sweep64 3 4 ?s1"
  have p2: "on34 ?s2 (265 / 4) (265 / 4) (5 / 4)"
    using on34_sweep [OF p1] by (simp add: double_eval)
  let ?s3 = "sweep64 3 4 ?s2"
  have p3: "on34 ?s3 (1065 / 16) (1065 / 16) (5 / 16)"
    using on34_sweep [OF p2] by (simp add: double_eval)
  let ?s4 = "sweep64 3 4 ?s3"
  have p4: "on34 ?s4 (4265 / 64) (4265 / 64) (5 / 64)"
    using on34_sweep [OF p3] by (simp add: double_eval)
  let ?s5 = "sweep64 3 4 ?s4"
  have p5: "on34 ?s5 (17065 / 256) (17065 / 256) (5 / 256)"
    using on34_sweep [OF p4] by (simp add: double_eval)
  let ?s6 = "sweep64 3 4 ?s5"
  have p6: "on34 ?s6 (68265 / 1024) (68265 / 1024) (5 / 1024)"
    using on34_sweep [OF p5] by (simp add: double_eval)
  let ?s7 = "sweep64 3 4 ?s6"
  have p7: "on34 ?s7 (273065 / 4096) (273065 / 4096) (5 / 4096)"
    using on34_sweep [OF p6] by (simp add: double_eval)
  let ?s8 = "sweep64 3 4 ?s7"
  have p8: "on34 ?s8 (1092265 / 16384) (1092265 / 16384) (5 / 16384)"
    using on34_sweep [OF p7] by (simp add: double_eval)
  let ?s9 = "sweep64 3 4 ?s8"
  have p9: "on34 ?s9 (4369065 / 65536) (4369065 / 65536) (5 / 65536)"
    using on34_sweep [OF p8] by (simp add: double_eval)
  let ?s10 = "sweep64 3 4 ?s9"
  have p10: "on34 ?s10 (17476265 / 262144) (17476265 / 262144) (5 / 262144)"
    using on34_sweep [OF p9] by (simp add: double_eval)
  let ?s11 = "sweep64 3 4 ?s10"
  have p11: "on34 ?s11 (69905065 / 1048576) (69905065 / 1048576) (5 / 1048576)"
    using on34_sweep [OF p10] by (simp add: double_eval)
  let ?s12 = "sweep64 3 4 ?s11"
  have p12: "on34 ?s12 (279620265 / 4194304) (279620265 / 4194304) (5 / 4194304)"
    using on34_sweep [OF p11] by (simp add: double_eval)
  let ?s13 = "sweep64 3 4 ?s12"
  have p13: "on34 ?s13 (1118481065 / 16777216) (1118481065 / 16777216) (5 / 16777216)"
    using on34_sweep [OF p12] by (simp add: double_eval)
  let ?s14 = "sweep64 3 4 ?s13"
  have p14: "on34 ?s14 (4473924265 / 67108864) (4473924265 / 67108864) (5 / 67108864)"
    using on34_sweep [OF p13] by (simp add: double_eval)
  let ?s15 = "sweep64 3 4 ?s14"
  have p15: "on34 ?s15 (17895697065 / 268435456) (17895697065 / 268435456) (5 / 268435456)"
    using on34_sweep [OF p14] by (simp add: double_eval)
  let ?s16 = "sweep64 3 4 ?s15"
  have p16: "on34 ?s16 (71582788265 / 1073741824) (71582788265 / 1073741824) (5 / 1073741824)"
    using on34_sweep [OF p15] by (simp add: double_eval)
  let ?s17 = "sweep64 3 4 ?s16"
  have p17: "on34 ?s17 (286331153065 / 4294967296) (286331153065 / 4294967296) (5 / 4294967296)"
    using on34_sweep [OF p16] by (simp add: double_eval)
  let ?s18 = "sweep64 3 4 ?s17"
  have p18: "on34 ?s18 (1145324612265 / 17179869184) (1145324612265 / 17179869184) (5 / 17179869184)"
    using on34_sweep [OF p17] by (simp add: double_eval)
  let ?s19 = "sweep64 3 4 ?s18"
  have p19: "on34 ?s19 (4581298449065 / 68719476736) (4581298449065 / 68719476736) (5 / 68719476736)"
    using on34_sweep [OF p18] by (simp add: double_eval)
  let ?s20 = "sweep64 3 4 ?s19"
  have p20: "on34 ?s20 (18325193796265 / 274877906944) (18325193796265 / 274877906944) (5 / 274877906944)"
    using on34_sweep [OF p19] by (simp add: double_eval)
  let ?s21 = "sweep64 3 4 ?s20"
  have p21: "on34 ?s21 (73300775185065 / 1099511627776) (73300775185065 / 1099511627776) (5 / 1099511627776)"
    using on34_sweep [OF p20] by (simp add: double_eval)
  let ?s22 = "sweep64 3 4 ?s21"
  have p22: "on34 ?s22 (293203100740265 / 4398046511104) (293203100740265 / 4398046511104) (5 / 4398046511104)"
    using on34_sweep [OF p21] by (simp add: double_eval)
  let ?s23 = "sweep64 3 4 ?s22"
  have p23: "on34 ?s23 (1172812402961065 / 17592186044416) (1172812402961065 / 17592186044416) (5 / 17592186044416)"
    using on34_sweep [OF p22] by (simp add: double_eval)
  let ?s24 = "sweep64 3 4 ?s23"
  have p24: "on34 ?s24 (4691249611844265 / 70368744177664) (4691249611844265 / 70368744177664) (5 / 70368744177664)"
    using on34_sweep [OF p23] by (simp add: double_eval)
  let ?s25 = "sweep64 3 4 ?s24"
  have p25: "on34 ?s25 (2345624805922133 / 35184372088832) (2345624805922133 / 35184372088832) (1 / 70368744177664)"
    using on34_sweep [OF p24] by (simp add: double_eval)
  let ?s26 = "sweep64 3 4 ?s25"
  have p26: "on34 ?s26 (2345624805922133 / 35184372088832) (2345624805922133 / 35184372088832) (0)"
    using on34_sweep [OF p25] by (simp add: double_eval)
  have "heat_loop64 3 4 ?s0 = heat_loop64 3 4 ?s1"
    using p0 by (rule on34_again) simp
  also have "\<dots> = heat_loop64 3 4 ?s2"
    using p1 by (rule on34_again) simp
  also have "\<dots> = heat_loop64 3 4 ?s3"
    using p2 by (rule on34_again) simp
  also have "\<dots> = heat_loop64 3 4 ?s4"
    using p3 by (rule on34_again) simp
  also have "\<dots> = heat_loop64 3 4 ?s5"
    using p4 by (rule on34_again) simp
  also have "\<dots> = heat_loop64 3 4 ?s6"
    using p5 by (rule on34_again) simp
  also have "\<dots> = heat_loop64 3 4 ?s7"
    using p6 by (rule on34_again) simp
  also have "\<dots> = heat_loop64 3 4 ?s8"
    using p7 by (rule on34_again) simp
  also have "\<dots> = heat_loop64 3 4 ?s9"
    using p8 by (rule on34_again) simp
  also have "\<dots> = heat_loop64 3 4 ?s10"
    using p9 by (rule on34_again) simp
  also have "\<dots> = heat_loop64 3 4 ?s11"
    using p10 by (rule on34_again) simp
  also have "\<dots> = heat_loop64 3 4 ?s12"
    using p11 by (rule on34_again) simp
  also have "\<dots> = heat_loop64 3 4 ?s13"
    using p12 by (rule on34_again) simp
  also have "\<dots> = heat_loop64 3 4 ?s14"
    using p13 by (rule on34_again) simp
  also have "\<dots> = heat_loop64 3 4 ?s15"
    using p14 by (rule on34_again) simp
  also have "\<dots> = heat_loop64 3 4 ?s16"
    using p15 by (rule on34_again) simp
  also have "\<dots> = heat_loop64 3 4 ?s17"
    using p16 by (rule on34_again) simp
  also have "\<dots> = heat_loop64 3 4 ?s18"
    using p17 by (rule on34_again) simp
  also have "\<dots> = heat_loop64 3 4 ?s19"
    using p18 by (rule on34_again) simp
  also have "\<dots> = heat_loop64 3 4 ?s20"
    using p19 by (rule on34_again) simp
  also have "\<dots> = heat_loop64 3 4 ?s21"
    using p20 by (rule on34_again) simp
  also have "\<dots> = heat_loop64 3 4 ?s22"
    using p21 by (rule on34_again) simp
  also have "\<dots> = heat_loop64 3 4 ?s23"
    using p22 by (rule on34_again) simp
  also have "\<dots> = heat_loop64 3 4 ?s24"
    using p23 by (rule on34_again) simp
  also have "\<dots> = heat_loop64 3 4 ?s25"
    using p24 by (rule on34_again) simp
  also have "\<dots> = heat_loop64 3 4 ?s26"
    using p25 by (rule on34_again) simp
  also have "\<dots> = Some ?s26"
    using p26 by (rule on34_stop) simp
  finally have run: "main64 3 4 (Some (1 / 2 ^ 50)) (Some f) = Some (Inr ?s26)"
    by (simp add: main64_loop)
  have "(sweep64 3 4 ^^ 26) ?s0 = ?s26"
    by (simp add: eval_nat_numeral)
  with run p26 show ?thesis
    by simp
qed

section \<open>The claims\<close>

text \<open>
  Claim C1.  One sweep copies all of \<^verbatim>\<open>w\<close> into \<^verbatim>\<open>u\<close> (every cell of the
  \<open>M \<times> N\<close> array, boundary included); then every interior cell of \<^verbatim>\<open>w\<close> becomes
  the average of its four neighbours as they were before the sweep, every other cell of
  \<^verbatim>\<open>w\<close> keeps its value, and \<^verbatim>\<open>diff\<close> ends as the largest of 0 and the
  absolute changes of the interior cells.
\<close>

theorem sweep_jacobi:
  "(\<forall>i<M. \<forall>j<N. u (sweep M N s) i j = w s i j) \<and>
   (\<forall>i j. interior M N i j \<longrightarrow>
      w (sweep M N s) i j = (w s (i - 1) j + w s (i + 1) j + w s i (j - 1) + w s i (j + 1)) / 4) \<and>
   (\<forall>i j. \<not> interior M N i j \<longrightarrow> w (sweep M N s) i j = w s i j) \<and>
   diff (sweep M N s) =
     Max (insert 0 ((\<lambda>(i, j). \<bar>w (sweep M N s) i j - w s i j\<bar>) ` ({1..<M - 1} \<times> {1..<N - 1})))"
proof (intro conjI)
  show "\<forall>i<M. \<forall>j<N. u (sweep M N s) i j = w s i j"
    by (simp add: u_sweep)
  show "\<forall>i j. interior M N i j \<longrightarrow>
      w (sweep M N s) i j = (w s (i - 1) j + w s (i + 1) j + w s i (j - 1) + w s i (j + 1)) / 4"
    by (simp add: w_sweep neighbour_mean_def)
  show "\<forall>i j. \<not> interior M N i j \<longrightarrow> w (sweep M N s) i j = w s i j"
    by (simp add: w_sweep)
  show "diff (sweep M N s) =
     Max (insert 0 ((\<lambda>(i, j). \<bar>w (sweep M N s) i j - w s i j\<bar>) ` ({1..<M - 1} \<times> {1..<N - 1})))"
    by (rule diff_sweep)
qed

theorem sweep_jacobi_witness:
  "(1::nat) < 3 \<and> interior 3 3 1 1 \<and> \<not> interior 3 3 0 1
     \<and> u (sweep 3 3 (prepared 3 3 1)) 1 1 = 125 / 2
     \<and> w (sweep 3 3 (prepared 3 3 1)) 1 1 = 75
     \<and> w (sweep 3 3 (prepared 3 3 1)) 0 1 = 0
     \<and> diff (sweep 3 3 (prepared 3 3 1)) = 25 / 2"
proof -
  note J = sweep_jacobi [of 3 3 "prepared 3 3 1"]
  have a: "u (sweep 3 3 (prepared 3 3 1)) 1 1 = 125 / 2"
    using J [THEN conjunct1, rule_format, of 1 1] by (simp add: w_prepared_3)
  have b: "w (sweep 3 3 (prepared 3 3 1)) 1 1 = 75"
    using J [THEN conjunct2, THEN conjunct1, rule_format, of 1 1]
    by (simp add: w_prepared_3 interior_3)
  have c: "w (sweep 3 3 (prepared 3 3 1)) 0 1 = 0"
    using J [THEN conjunct2, THEN conjunct2, THEN conjunct1, rule_format, of 0 1]
    by (simp add: w_prepared_3 interior_3)
  have d: "diff (sweep 3 3 (prepared 3 3 1)) = 25 / 2"
    using J [THEN conjunct2, THEN conjunct2, THEN conjunct2] b
    by (simp only: cells_3) (simp add: w_prepared_3)
  show ?thesis
    using a b c d by (simp add: interior_3)
qed



text \<open>
  Claim C3.  After \<^verbatim>\<open>setBoundaryValue\<close> the west and the east column hold 100 in
  the rows \<open>1..M - 2\<close>, row 0 holds 0 and row \<open>M - 1\<close> holds 100 in every column,
  corners included; the two column loops leave the four corners as they were, so the
  corners get their values from the two row loops.
\<close>

theorem boundary_stamped:
  assumes "2 \<le> M" and "1 \<le> N"
  shows "(\<forall>i. 1 \<le> i \<and> i + 2 \<le> M \<longrightarrow> w (setBoundaryValue M N s) i 0 = 100) \<and>
         (\<forall>i. 1 \<le> i \<and> i + 2 \<le> M \<longrightarrow> w (setBoundaryValue M N s) i (N - 1) = 100) \<and>
         (\<forall>j<N. w (setBoundaryValue M N s) 0 j = 0) \<and>
         (\<forall>j<N. w (setBoundaryValue M N s) (M - 1) j = 100) \<and>
         (\<forall>i\<in>{0, M - 1}. \<forall>j\<in>{0, N - 1}.
            w (stamp_east M N (stamp_west M N s)) i j = w s i j)"
  using assms by (auto simp: w_setBoundaryValue w_west_east)

theorem boundary_stamped_witness:
  "(2::nat) \<le> 3 \<and> (1::nat) \<le> 3 \<and> w (setBoundaryValue 3 3 initial) 1 0 = 100
     \<and> w (setBoundaryValue 3 3 initial) 1 (3 - 1) = 100
     \<and> w (setBoundaryValue 3 3 initial) 0 0 = 0
     \<and> w (setBoundaryValue 3 3 initial) 0 2 = 0
     \<and> w (setBoundaryValue 3 3 initial) (3 - 1) 0 = 100
     \<and> w (setBoundaryValue 3 3 initial) (3 - 1) 2 = 100
     \<and> w (stamp_east 3 3 (stamp_west 3 3 initial)) (3 - 1) 0 = w initial (3 - 1) 0"
  using boundary_stamped [of 3 3 initial] by simp

text \<open>
  Claim C4.  After \<^verbatim>\<open>setAverageBoundary\<close> every interior cell holds \<^verbatim>\<open>mean\<close>,
  and \<^verbatim>\<open>mean\<close> is the sum of the boundary cells (the two full edge rows and the two
  edge columns in the rows \<open>1..M - 2\<close>; a sum over a set, so each cell counts once)
  divided by \<open>2 * M + 2 * N - 4\<close>, which is the number of boundary cells.  The
  boundary cells themselves keep their values.
\<close>

theorem interior_is_boundary_mean:
  assumes "2 \<le> M" and "2 \<le> N"
  shows "mean (setAverageBoundary M N s)
           = (\<Sum>(i, j)\<in>boundary_cells M N. w s i j) / real (2 * M + 2 * N - 4) \<and>
         card (boundary_cells M N) = 2 * M + 2 * N - 4 \<and>
         (\<forall>(i, j)\<in>boundary_cells M N. w (setAverageBoundary M N s) i j = w s i j) \<and>
         (\<forall>i j. interior M N i j \<longrightarrow>
            w (setAverageBoundary M N s) i j = mean (setAverageBoundary M N s))"
proof (intro conjI)
  from assms have "real_of_int (2 * int M + 2 * int N - 4) = real (2 * M + 2 * N - 4)"
    by (simp add: of_nat_diff)
  then show "mean (setAverageBoundary M N s)
      = (\<Sum>(i, j)\<in>boundary_cells M N. w s i j) / real (2 * M + 2 * N - 4)"
    using assms by (simp only: mean_setAverageBoundary sum_boundary_cells)
  show "card (boundary_cells M N) = 2 * M + 2 * N - 4"
    using assms by (rule card_boundary_cells)
  show "\<forall>(i, j)\<in>boundary_cells M N. w (setAverageBoundary M N s) i j = w s i j"
    by (auto simp: w_setAverageBoundary boundary_not_interior)
  show "\<forall>i j. interior M N i j \<longrightarrow>
      w (setAverageBoundary M N s) i j = mean (setAverageBoundary M N s)"
    by (simp add: w_setAverageBoundary)
qed

theorem interior_is_boundary_mean_witness:
  "(2::nat) \<le> 3 \<and> interior 3 3 1 1 \<and> (0, 0) \<in> boundary_cells 3 3
     \<and> (\<Sum>(i, j)\<in>boundary_cells 3 3. w (setBoundaryValue 3 3 (entry_state 1)) i j) = 500
     \<and> real (2 * 3 + 2 * 3 - 4) = 8
     \<and> mean (setAverageBoundary 3 3 (setBoundaryValue 3 3 (entry_state 1))) = 500 / 8
     \<and> w (setAverageBoundary 3 3 (setBoundaryValue 3 3 (entry_state 1))) 1 1 = 500 / 8
     \<and> w (setAverageBoundary 3 3 (setBoundaryValue 3 3 (entry_state 1))) 0 0 = 0"
proof -
  note A = interior_is_boundary_mean [of 3 3 "setBoundaryValue 3 3 (entry_state 1)"]
  have le: "(2::nat) \<le> 3"
    by simp
  have i: "interior 3 3 1 1"
    by (simp add: interior_def)
  have b: "(0, 0) \<in> boundary_cells 3 3"
    by (simp add: boundary_cells_3)
  have s: "(\<Sum>(i, j)\<in>boundary_cells 3 3. w (setBoundaryValue 3 3 (entry_state 1)) i j) = 500"
    by (simp add: boundary_cells_3 w_stamped_3)
  have m: "mean (setAverageBoundary 3 3 (setBoundaryValue 3 3 (entry_state 1))) = 500 / 8"
    using A [OF le le, THEN conjunct1] s by simp
  have c: "w (setAverageBoundary 3 3 (setBoundaryValue 3 3 (entry_state 1))) 1 1 = 500 / 8"
    using A [OF le le, THEN conjunct2, THEN conjunct2, THEN conjunct2, rule_format, OF i] m
    by simp
  have d: "w (setAverageBoundary 3 3 (setBoundaryValue 3 3 (entry_state 1))) 0 0 = 0"
    using A [OF le le, THEN conjunct2, THEN conjunct2, THEN conjunct1] b
    by (auto simp: w_stamped_3)
  show ?thesis
    using le i b s m c d by simp
qed

text \<open>
  Claim C5, as amended.  When the program returns, every interior cell of the final
  \<^verbatim>\<open>w\<close> is within \<open>eps + 2 ^ -43\<close> of the average of its four neighbours in that same
  grid: the distance is at most the final \<^verbatim>\<open>diff\<close>, which is below \<open>eps\<close>, and three
  roundings of at most \<open>2 ^ -45\<close> each.  This is about the program in double arithmetic,
  at every size for which the source's \<^verbatim>\<open>int\<close> expression \<^verbatim>\<open>2 * M + 2 * N - 4\<close> is
  defined.
\<close>

theorem result_harmonic_up_to_rounding:
  assumes "main64 M N (Some eps) (Some f) = Some (Inr s')"
    and "interior M N i j" and "2 * M + 2 * N < 2 ^ 31"
  shows "\<bar>w s' i j - neighbour_mean (w s') i j\<bar> < eps + 1 / 2 ^ 43"
proof -
  from assms(2) have size: "2 \<le> M" "1 \<le> N"
    by (simp_all add: interior_def)
  from main64_SomeD [OF assms(1)]
  obtain n where n: "s' = sweep64 M N ((sweep64 M N ^^ n) (prepared64 M N eps))" "diff s' < eps"
    by blast
  have "\<forall>i<M. \<forall>j<N. 0 \<le> w (prepared64 M N eps) i j \<and> w (prepared64 M N eps) i j \<le> 100"
    using prepared64_range [OF size assms(3)] by blast
  then have "\<forall>i<M. \<forall>j<N. 0 \<le> w ((sweep64 M N ^^ n) (prepared64 M N eps)) i j
      \<and> w ((sweep64 M N ^^ n) (prepared64 M N eps)) i j \<le> 100"
    by (rule sweeps64_range)
  from swept64_near_harmonic [OF this assms(2)] n(1)
  have "\<bar>w s' i j - neighbour_mean (w s') i j\<bar> \<le> diff s' + 3 / 2 ^ 45"
    by simp
  with n(2) show ?thesis
    by simp
qed

theorem result_harmonic_up_to_rounding_witness:
  "main64 3 4 (Some (1 / 2 ^ 50)) (Some ''plate.txt'')
     = Some (Inr ((sweep64 3 4 ^^ 26) (prepared64 3 4 (1 / 2 ^ 50))))
     \<and> interior 3 4 1 1 \<and> (2::nat) * 3 + 2 * 4 < 2 ^ 31
     \<and> \<bar>w ((sweep64 3 4 ^^ 26) (prepared64 3 4 (1 / 2 ^ 50))) 1 1
          - neighbour_mean (w ((sweep64 3 4 ^^ 26) (prepared64 3 4 (1 / 2 ^ 50)))) 1 1\<bar>
         < 1 / 2 ^ 50 + 1 / 2 ^ 43"
proof -
  have run: "main64 3 4 (Some (1 / 2 ^ 50)) (Some ''plate.txt'')
      = Some (Inr ((sweep64 3 4 ^^ 26) (prepared64 3 4 (1 / 2 ^ 50))))"
    using run_34 [of "''plate.txt''"] ..
  have i: "interior 3 4 1 1"
    by (simp add: interior_34)
  have size: "(2::nat) * 3 + 2 * 4 < 2 ^ 31"
    by simp
  from result_harmonic_up_to_rounding [OF run i size] run i size show ?thesis
    by blast
qed

text \<open>
  The claim as stated, without the allowance for rounding, fails on the 3 by 4 plate
  with the tolerance \<open>2 ^ -50\<close>: the program returns after 26 sweeps with \<^verbatim>\<open>diff\<close>
  equal to 0, and the cell \<open>(1, 1)\<close> is \<open>2 ^ -47\<close> away from the average of its
  neighbours.
\<close>

theorem result_harmonic_counterexample:
  "main64 3 4 (Some (1 / 2 ^ 50)) (Some ''plate.txt'')
     = Some (Inr ((sweep64 3 4 ^^ 26) (prepared64 3 4 (1 / 2 ^ 50))))
     \<and> interior 3 4 1 1
     \<and> diff ((sweep64 3 4 ^^ 26) (prepared64 3 4 (1 / 2 ^ 50))) = 0
     \<and> \<bar>w ((sweep64 3 4 ^^ 26) (prepared64 3 4 (1 / 2 ^ 50))) 1 1
          - neighbour_mean (w ((sweep64 3 4 ^^ 26) (prepared64 3 4 (1 / 2 ^ 50)))) 1 1\<bar>
         = 1 / 2 ^ 47
     \<and> (1::real) / 2 ^ 50 < 1 / 2 ^ 47"
proof -
  let ?s = "(sweep64 3 4 ^^ 26) (prepared64 3 4 (1 / 2 ^ 50))"
  note r = run_34 [of "''plate.txt''"]
  from r have c: "w ?s 0 1 = 0" "w ?s 2 1 = 100" "w ?s 1 0 = 100"
    "w ?s 1 1 = 2345624805922133 / 35184372088832"
    "w ?s 1 2 = 2345624805922133 / 35184372088832" "diff ?s = 0"
    by (simp_all add: on34_def)
  have n: "(1::nat) - 1 = 0" "(1::nat) + 1 = 2"
    by simp_all
  have "\<bar>w ?s 1 1 - neighbour_mean (w ?s) 1 1\<bar> = 1 / 2 ^ 47"
    by (simp only: neighbour_mean_def n c) simp
  with r c(6) show ?thesis
    by (simp add: interior_34)
qed

text \<open>
  Claim C6.  The claim is that a sweep that ends with \<^verbatim>\<open>diff\<close> equal to the
  tolerance ends the iteration, as the comment and the message of \<^verbatim>\<open>main\<close> say
  (``until the change is \<open>\<le>\<close> epsilon'').  On the 3 by 3 plate with tolerance 12.5 the
  first sweep ends with \<^verbatim>\<open>diff\<close> equal to the tolerance, the loop sweeps again, and the
  program returns after two sweeps.
\<close>

theorem equal_to_tolerance_sweeps_again:
  "diff (sweep 3 3 (prepared 3 3 (25 / 2))) = epsilon (sweep 3 3 (prepared 3 3 (25 / 2)))
     \<and> heat_loop 3 3 (sweep 3 3 (prepared 3 3 (25 / 2)))
         = heat_loop 3 3 (sweep 3 3 (sweep 3 3 (prepared 3 3 (25 / 2))))
     \<and> main 3 3 (Some (25 / 2)) (Some ''plate.txt'')
         = Some (Inr (sweep 3 3 (sweep 3 3 (prepared 3 3 (25 / 2)))))
     \<and> iterations (sweep 3 3 (sweep 3 3 (prepared 3 3 (25 / 2)))) = 2"
proof (intro conjI)
  show e: "diff (sweep 3 3 (prepared 3 3 (25 / 2))) = epsilon (sweep 3 3 (prepared 3 3 (25 / 2)))"
    by (simp add: first_sweep_3 epsilon_sweep prepared_fields)
  show "heat_loop 3 3 (sweep 3 3 (prepared 3 3 (25 / 2)))
      = heat_loop 3 3 (sweep 3 3 (sweep 3 3 (prepared 3 3 (25 / 2))))"
    using e by (intro heat_loop_step) simp
  show "main 3 3 (Some (25 / 2)) (Some ''plate.txt'')
      = Some (Inr (sweep 3 3 (sweep 3 3 (prepared 3 3 (25 / 2)))))"
    by (rule two_sweeps_3) simp_all
  show "iterations (sweep 3 3 (sweep 3 3 (prepared 3 3 (25 / 2)))) = 2"
    by (simp add: iterations_sweep prepared_fields)
qed

text \<open>
  Claim C7.  The claim is that the loop ends for every tolerance from zero upwards.  With
  the tolerance zero it never ends.  On the 3 by 3 plate the second sweep ends with
  \<^verbatim>\<open>diff\<close> equal to 0, which is the tolerance, so the change is ``\<open>\<le>\<close> epsilon'' as the
  message of \<^verbatim>\<open>main\<close> asks; the test \<^verbatim>\<open>epsilon <= diff\<close> succeeds all the same, the
  loop makes a third sweep, and so on without end.  At the size of the source the run
  does not return either, in exact arithmetic and in double arithmetic alike.
\<close>

theorem zero_tolerance_never_returns:
  "diff (sweep 3 3 (sweep 3 3 (prepared 3 3 0))) = 0
     \<and> epsilon (sweep 3 3 (sweep 3 3 (prepared 3 3 0))) = 0
     \<and> heat_passes 3 3 3 (prepared 3 3 0) = (sweep 3 3 ^^ 3) (prepared 3 3 0)
     \<and> iterations (heat_passes 3 3 3 (prepared 3 3 0)) = 3
     \<and> main 3 3 (Some 0) (Some ''plate.txt'') = None
     \<and> main M_source N_source (Some 0) (Some ''plate.txt'') = None
     \<and> main64 M_source N_source (Some 0) (Some ''plate.txt'') = None"
proof (intro conjI)
  show "diff (sweep 3 3 (sweep 3 3 (prepared 3 3 0))) = 0"
    by (simp add: second_sweep_3)
  show "epsilon (sweep 3 3 (sweep 3 3 (prepared 3 3 0))) = 0"
    by (simp add: epsilon_sweep prepared_fields)
  show p: "heat_passes 3 3 3 (prepared 3 3 0) = (sweep 3 3 ^^ 3) (prepared 3 3 0)"
    by (rule heat_passes_never_stops) (simp_all add: prepared_fields)
  show "iterations (heat_passes 3 3 3 (prepared 3 3 0)) = 3"
    unfolding p by (simp add: iterations_sweeps prepared_fields)
  show "main 3 3 (Some 0) (Some ''plate.txt'') = None"
    by (rule main_diverges) simp
  show "main M_source N_source (Some 0) (Some ''plate.txt'') = None"
    by (rule main_diverges) simp
  show "main64 M_source N_source (Some 0) (Some ''plate.txt'') = None"
    by (rule main64_diverges) simp
qed

text \<open>
  Claim C8, as amended.  The program reports two errors only, a tolerance or a file
  name that could not be read, both before it touches the grid.  A negative tolerance is
  not one of them: the grid is initialised, the loop is entered with the tolerance as
  read (it keeps that value through every sweep), every sweep ends with \<^verbatim>\<open>diff\<close> at
  or above it, and the program never returns.
\<close>

theorem negative_tolerance_not_detected:
  "(main M N eps_in file_in = Some (Inl e) \<longleftrightarrow>
      (eps_in = None \<and> e = EpsilonReadError)
        \<or> (eps_in \<noteq> None \<and> file_in = None \<and> e = FilenameReadError)) \<and>
   (eps < 0 \<longrightarrow>
      main M N (Some eps) (Some f) = None \<and>
      main M N (Some eps) (Some f) = map_option Inr (heat_loop M N (prepared M N eps)) \<and>
      (\<forall>n. epsilon ((sweep M N ^^ n) (prepared M N eps)) = eps
           \<and> eps \<le> diff ((sweep M N ^^ n) (prepared M N eps))))"
proof (intro conjI impI allI)
  show "main M N eps_in file_in = Some (Inl e) \<longleftrightarrow>
      (eps_in = None \<and> e = EpsilonReadError)
        \<or> (eps_in \<noteq> None \<and> file_in = None \<and> e = FilenameReadError)"
    by (rule main_error_iff)
next
  assume "eps < 0"
  then show "main M N (Some eps) (Some f) = None"
    by (intro main_diverges) simp
next
  show "main M N (Some eps) (Some f) = map_option Inr (heat_loop M N (prepared M N eps))"
    by (rule main_loop)
next
  fix n
  show "epsilon ((sweep M N ^^ n) (prepared M N eps)) = eps"
    by (simp add: epsilon_sweeps prepared_fields)
next
  fix n
  assume "eps < 0"
  then have "main M N (Some eps) (Some f) = None"
    by (intro main_diverges) simp
  then have "heat_loop M N (prepared M N eps) = None"
    by (simp add: main_loop)
  then show "eps \<le> diff ((sweep M N ^^ n) (prepared M N eps))"
    by (simp add: heat_loop_None_iff prepared_fields)
qed

theorem negative_tolerance_not_detected_witness:
  "(- 1 :: real) < 0 \<and> main 3 3 (Some (- 1)) (Some ''plate.txt'') = None
     \<and> main 3 3 (Some (- 1)) (Some ''plate.txt'') \<noteq> Some (Inl EpsilonReadError)
     \<and> main 3 3 None (Some ''plate.txt'') = Some (Inl EpsilonReadError)
     \<and> epsilon ((sweep 3 3 ^^ 2) (prepared 3 3 (- 1))) = - 1"
  using negative_tolerance_not_detected [of 3 3 "Some (- 1)" "Some ''plate.txt''" EpsilonReadError "- 1" "''plate.txt''"]
    negative_tolerance_not_detected [of 3 3 None "Some ''plate.txt''" EpsilonReadError "- 1" "''plate.txt''"]
  by simp

text \<open>
  The claim as stated fails for the tolerance \<open>-1\<close>: no error is returned, and the
  south-west corner, 0 at the start, holds 100 when the loop is reached.
\<close>

theorem negative_tolerance_counterexample:
  "main M_source N_source (Some (- 1)) (Some ''plate.txt'') = None
     \<and> w initial (M_source - 1) 0 = 0
     \<and> w (prepared M_source N_source (- 1)) (M_source - 1) 0 = 100"
proof (intro conjI)
  show "main M_source N_source (Some (- 1)) (Some ''plate.txt'') = None"
    by (rule main_diverges) simp
  show "w initial (M_source - 1) 0 = 0"
    by (simp add: initial_def)
  show "w (prepared M_source N_source (- 1)) (M_source - 1) 0 = 100"
    by (simp add: w_prepared M_source_def N_source_def interior_def)
qed

text \<open>
  Claim C9, as amended.  On the 3 by 3 plate the one interior cell starts at the mean
  of the eight boundary cells, 62.5.  The first sweep sets it to the average of its four
  neighbours, 75, and ends with \<^verbatim>\<open>diff\<close> equal to 12.5; the second sweep leaves it at
  75 and ends with \<^verbatim>\<open>diff\<close> equal to 0.  The program returns after one sweep when the
  tolerance is above 12.5, and after two sweeps when it is positive and below 12.5.
\<close>

theorem minimum_grid:
  "(interior 3 3 i j \<longleftrightarrow> i = 1 \<and> j = 1) \<and>
   w (prepared 3 3 eps) 1 1 = 125 / 2 \<and>
   w (sweep 3 3 (prepared 3 3 eps)) 1 1 = neighbour_mean (w (prepared 3 3 eps)) 1 1 \<and>
   w (sweep 3 3 (prepared 3 3 eps)) 1 1 = 75 \<and>
   diff (sweep 3 3 (prepared 3 3 eps)) = 25 / 2 \<and>
   w (sweep 3 3 (sweep 3 3 (prepared 3 3 eps))) 1 1 = 75 \<and>
   diff (sweep 3 3 (sweep 3 3 (prepared 3 3 eps))) = 0 \<and>
   (25 / 2 < eps \<longrightarrow>
      main 3 3 (Some eps) (Some f) = Some (Inr (sweep 3 3 (prepared 3 3 eps)))) \<and>
   (0 < eps \<and> eps < 25 / 2 \<longrightarrow>
      main 3 3 (Some eps) (Some f)
        = Some (Inr (sweep 3 3 (sweep 3 3 (prepared 3 3 eps)))))"
proof (intro conjI)
  show "interior 3 3 i j \<longleftrightarrow> i = 1 \<and> j = 1"
    by (rule interior_3)
  show "w (prepared 3 3 eps) 1 1 = 125 / 2"
    by (simp add: w_prepared_3)
  show "w (sweep 3 3 (prepared 3 3 eps)) 1 1 = neighbour_mean (w (prepared 3 3 eps)) 1 1"
    by (simp add: w_sweep interior_3)
  show "w (sweep 3 3 (prepared 3 3 eps)) 1 1 = 75"
    by (simp add: first_sweep_3)
  show "diff (sweep 3 3 (prepared 3 3 eps)) = 25 / 2"
    by (simp add: first_sweep_3)
  show "w (sweep 3 3 (sweep 3 3 (prepared 3 3 eps))) 1 1 = 75"
    by (simp add: second_sweep_3)
  show "diff (sweep 3 3 (sweep 3 3 (prepared 3 3 eps))) = 0"
    by (simp add: second_sweep_3)
  show "25 / 2 < eps \<longrightarrow>
      main 3 3 (Some eps) (Some f) = Some (Inr (sweep 3 3 (prepared 3 3 eps)))"
    by (simp add: one_sweep_3)
  show "0 < eps \<and> eps < 25 / 2 \<longrightarrow>
      main 3 3 (Some eps) (Some f)
        = Some (Inr (sweep 3 3 (sweep 3 3 (prepared 3 3 eps))))"
    by (simp add: two_sweeps_3)
qed

theorem minimum_grid_witness:
  "(25 / 2 < (13::real)) \<and>
   main 3 3 (Some 13) (Some ''plate.txt'') = Some (Inr (sweep 3 3 (prepared 3 3 13))) \<and>
   (0 < (1::real) \<and> (1::real) < 25 / 2) \<and>
   main 3 3 (Some 1) (Some ''plate.txt'')
     = Some (Inr (sweep 3 3 (sweep 3 3 (prepared 3 3 1)))) \<and>
   diff (sweep 3 3 (prepared 3 3 1)) = 25 / 2"
  using minimum_grid [of 1 1 13 "''plate.txt''"] minimum_grid [of 1 1 1 "''plate.txt''"]
  by simp

text \<open>The claim as stated, that \<^verbatim>\<open>diff\<close> is 0 at the end of the first sweep, fails.\<close>

theorem minimum_grid_counterexample: "diff (sweep 3 3 (prepared 3 3 1)) \<noteq> 0"
  by (simp add: first_sweep_3)

text \<open>
  Claim C10.  After initialization and after every sweep, every cell of \<^verbatim>\<open>w\<close> lies
  between 0 and 100, the least and the greatest of the boundary values of the source:
  the cells that are not interior keep the values they had at initialization, the
  interior cells start at \<^verbatim>\<open>mean\<close>, which lies between 0 and 100, and every sweep
  replaces them by averages of values in that interval.
\<close>

theorem grid_stays_in_range:
  assumes "2 \<le> M" and "1 \<le> N"
  shows "(\<forall>n. \<forall>i<M. \<forall>j<N.
            0 \<le> w ((sweep M N ^^ n) (prepared M N eps)) i j
              \<and> w ((sweep M N ^^ n) (prepared M N eps)) i j \<le> 100) \<and>
         (\<forall>n i j. \<not> interior M N i j \<longrightarrow>
            w ((sweep M N ^^ n) (prepared M N eps)) i j = w (prepared M N eps) i j) \<and>
         (\<forall>i j. interior M N i j \<longrightarrow> w (prepared M N eps) i j = mean (prepared M N eps)) \<and>
         0 \<le> mean (prepared M N eps) \<and> mean (prepared M N eps) \<le> 100"
proof (intro conjI)
  have "\<forall>i<M. \<forall>j<N. 0 \<le> w (prepared M N eps) i j \<and> w (prepared M N eps) i j \<le> 100"
    using prepared_range [OF assms] by blast
  then have "\<forall>i<M. \<forall>j<N. 0 \<le> w ((sweep M N ^^ n) (prepared M N eps)) i j
      \<and> w ((sweep M N ^^ n) (prepared M N eps)) i j \<le> 100" for n
    by (rule sweeps_range)
  then show "\<forall>n. \<forall>i<M. \<forall>j<N. 0 \<le> w ((sweep M N ^^ n) (prepared M N eps)) i j
      \<and> w ((sweep M N ^^ n) (prepared M N eps)) i j \<le> 100" ..
  show "\<forall>n i j. \<not> interior M N i j \<longrightarrow>
      w ((sweep M N ^^ n) (prepared M N eps)) i j = w (prepared M N eps) i j"
    by (simp add: sweeps_boundary)
  show "\<forall>i j. interior M N i j \<longrightarrow> w (prepared M N eps) i j = mean (prepared M N eps)"
    using assms by (simp add: w_prepared mean_prepared)
  show "0 \<le> mean (prepared M N eps)" "mean (prepared M N eps) \<le> 100"
    using start_mean_range [OF assms] by (simp_all add: mean_prepared [OF assms])
qed

theorem grid_stays_in_range_witness:
  "(2::nat) \<le> 3 \<and> (1::nat) \<le> 3 \<and> (1::nat) < 3 \<and> interior 3 3 1 1 \<and> \<not> interior 3 3 0 1
     \<and> 0 \<le> w ((sweep 3 3 ^^ 2) (prepared 3 3 1)) 1 1
     \<and> w ((sweep 3 3 ^^ 2) (prepared 3 3 1)) 1 1 \<le> 100
     \<and> w ((sweep 3 3 ^^ 2) (prepared 3 3 1)) 0 1 = w (prepared 3 3 1) 0 1
     \<and> w (prepared 3 3 1) 1 1 = mean (prepared 3 3 1)
     \<and> 0 \<le> mean (prepared 3 3 1) \<and> mean (prepared 3 3 1) \<le> 100"
proof -
  have a: "(2::nat) \<le> 3" and b: "(1::nat) \<le> 3" and c: "(1::nat) < 3"
    by simp_all
  have i: "interior 3 3 1 1" and ni: "\<not> interior 3 3 0 1"
    by (simp_all add: interior_3)
  note R = grid_stays_in_range [OF a b, of 1]
  from R [THEN conjunct1, rule_format, OF c c, of 2]
    R [THEN conjunct2, THEN conjunct1, rule_format, OF ni, of 2]
    R [THEN conjunct2, THEN conjunct2, THEN conjunct1, rule_format, OF i]
    R [THEN conjunct2, THEN conjunct2, THEN conjunct2]
    a b c i ni
  show ?thesis
    by blast
qed

end
